theory Spec2Isabelle
  imports Complex_Main
begin

section \<open>Text\<close>

text \<open>
  Source strings are modelled as \<^typ>\<open>string\<close>, one \<^typ>\<open>char\<close> per code unit, which
  covers the code units below 256 (the Latin-1 range). Within that range the white space
  that \<^verbatim>\<open>trim\<close> removes is TAB, LF, VT, FF, CR, the space and the no-break space, and the
  letters that \<^verbatim>\<open>toLowerCase\<close> and the flag \<^verbatim>\<open>i\<close> fold are A to Z and the accented
  capitals from U+00C0 to U+00DE other than the multiplication sign U+00D7.
\<close>

definition code :: "char \<Rightarrow> nat" where
  "code c = of_char c"

definition ESC :: char where
  "ESC = CHR 0x1B"

definition CR :: char where
  "CR = CHR 0x0D"

definition LF :: char where
  "LF = CHR 0x0A"

text \<open>
  The characters \<^verbatim>\<open>String.prototype.trim\<close> removes: TAB, LF, VT, FF, CR, the space and
  the no-break space U+00A0.
\<close>

definition isSpaceJS :: "char \<Rightarrow> bool" where
  "isSpaceJS c = ((9 \<le> code c \<and> code c \<le> 13) \<or> code c = 32 \<or> code c = 160)"

definition trim :: "string \<Rightarrow> string" where
  "trim s = rev (dropWhile isSpaceJS (rev (dropWhile isSpaceJS s)))"

section \<open>Log line sanitising\<close>




text \<open>The second pattern is the class \<^verbatim>\<open>[\x00-\x08\x0B-\x0C\x0E-\x1F\x7F]\<close>.\<close>

definition isControl :: "char \<Rightarrow> bool" where
  "isControl c =
     (code c \<le> 8 \<or> (11 \<le> code c \<and> code c \<le> 12) \<or> (14 \<le> code c \<and> code c \<le> 31) \<or> code c = 127)"


section \<open>Configuration\<close>

definition STATE_DIR :: string where
  "STATE_DIR = ''tools/gopher/.copilot-fix-state''"

definition WORKFLOWS_FILE :: string where
  "WORKFLOWS_FILE = STATE_DIR @ ''/selected-workflows.txt''"

definition LOG_DIR :: string where
  "LOG_DIR = STATE_DIR @ ''/logs''"

definition PROGRESS_DIR :: string where
  "PROGRESS_DIR = STATE_DIR @ ''/progress''"

definition logFile :: "string \<Rightarrow> string" where
  "logFile workflow = LOG_DIR @ ''/'' @ workflow @ ''.log''"

definition statusFile :: "string \<Rightarrow> string" where
  "statusFile workflow = LOG_DIR @ ''/'' @ workflow @ ''.status''"

definition promptFile :: "string \<Rightarrow> string" where
  "promptFile workflow = LOG_DIR @ ''/'' @ workflow @ ''.prompt''"

definition progressFile :: "string \<Rightarrow> string" where
  "progressFile workflow = PROGRESS_DIR @ ''/'' @ workflow @ ''-progress.json''"

text \<open>
  The two tables are object literals read by key. A key that is not in a table reads as
  \<^verbatim>\<open>undefined\<close>, which a template literal prints as the word. (Names that an object
  inherits from its prototype are not workflow names and are not modelled.)
\<close>

definition WORKFLOW_INSTRUCTIONS :: "(string \<times> string) list" where
  "WORKFLOW_INSTRUCTIONS =
     [
      (''test'',
       ''TODO''),
      (''lint'',
       ''You are a linting expert. PROCESS: 1) Run the lint command (e.g. 'npx nx lint <project>'), 2) Read all error output, 3) Fix ALL errors you can identify (unused imports, missing deps, etc), 4) Run lint again to verify. Work QUICKLY - don't ask questions, just fix the issues following the ESLint rules. Avoid disabling rules unless absolutely necessary.''),
      (''type'',
       ''You are a TypeScript expert. PROCESS: 1) Run type check (e.g. 'npx nx type-check <project>' or 'tsc --noEmit'), 2) Read all error output, 3) Fix ALL type errors you can identify (add types, handle nulls, etc), 4) Run type check again to verify. Work QUICKLY - don't ask questions, just fix the issues. Avoid using 'any' or '@ts-ignore' unless absolutely necessary.''),
      (''build'',
       ''You are a build expert. PROCESS: 1) Run build (e.g. 'npx nx build <project>'), 2) Read all error output carefully, 3) Fix ALL errors you find (missing imports/index files, wrong paths, missing deps), 4) Run build again to verify. Work QUICKLY and DIRECTLY - don't ask questions, just fix the issues. For import errors, find the correct file path or create missing index.js files. For missing dependencies, install them.'')
     ]"

definition WORKFLOW_ACTIONS :: "(string \<times> string) list" where
  "WORKFLOW_ACTIONS =
     [
      (''test'',
       ''fix the tests''),
      (''lint'',
       ''fix all linting errors''),
      (''type'',
       ''fix all TypeScript type errors''),
      (''build'',
       ''fix all build errors'')
     ]"

definition WORKFLOW_ORDER :: "string list" where
  "WORKFLOW_ORDER = [''type'', ''build'', ''test'', ''lint'']"

definition template :: "string option \<Rightarrow> string" where
  "template v = (case v of None \<Rightarrow> ''undefined'' | Some s \<Rightarrow> s)"

section \<open>The instruction payload\<close>

definition digitChar :: "nat \<Rightarrow> char" where
  "digitChar d = char_of (48 + d)"

fun showNat :: "nat \<Rightarrow> string" where
  "showNat n = (if n < 10 then [digitChar n] else showNat (n div 10) @ [digitChar (n mod 10)])"

declare showNat.simps [simp del]

definition todoHeader :: "string \<Rightarrow> string option \<Rightarrow> string option \<Rightarrow> string" where
  "todoHeader workflow workflowAction instructions =
      ''You are a code quality automation expert. You have a structured TODO list to complete.'' @ [LF] @
      [LF] @
      ''EXECUTION RULES:'' @ [LF] @
      ''1. Complete tasks in the EXACT order listed below'' @ [LF] @
      ''2. For each task, run the command, analyze output, and fix any issues found'' @ [LF] @
      ''3. After completing a task, mark it as DONE and move to the next'' @ [LF] @
      ''4. Report progress after completing each task'' @ [LF] @
      ''5. If a task passes with no errors, mark it DONE and proceed immediately'' @ [LF] @
      ''6. Work continuously without waiting for confirmation'' @ [LF] @
      [LF] @
      ''PROGRESS TRACKING:'' @ [LF] @
      ''IMPORTANT - Before starting each task, create/update a progress file to help the dashboard track your work:'' @ [LF] @
      ''- Create: '' @ PROGRESS_DIR @ ''/'' @ workflow @ ''-progress.json'' @ [LF] @
      ''- Format: {\"current_project\": \"project-name\", \"current_task\": N, \"completed_projects\": [\"proj1\", \"proj2\"]}'' @ [LF] @
      ''- Update this file BEFORE starting each new project'' @ [LF] @
      ''- Example: echo '{\"current_project\": \"vulnerability-management\", \"current_task\": 1, \"completed_projects\": []}' > '' @ PROGRESS_DIR @ ''/'' @ workflow @ ''-progress.json'' @ [LF] @
      ''- When a project completes successfully, add it to completed_projects array'' @ [LF] @
      ''- This allows the dashboard to show real-time progress accurately'' @ [LF] @
      [LF] @
      ''WORKFLOW: '' @ template workflowAction @ [LF] @
      ''Instructions: '' @ template instructions @ [LF] @
      [LF] @
      ''TODO LIST:'' @ [LF]"

definition todoLine :: "string option \<Rightarrow> nat \<times> string \<Rightarrow> string" where
  "todoLine workflowAction ip =
     (case ip of (idx, project) \<Rightarrow>
        ''  '' @ showNat (idx + 1) @ ''. '' @ template workflowAction @ '' in '' @ project @ [LF])"

definition todoFooter :: string where
  "todoFooter =
      [LF] @
      ''After completing ALL tasks above, create a summary report showing:'' @ [LF] @
      ''- Which projects had issues that were fixed'' @ [LF] @
      ''- Which projects passed all checks'' @ [LF] @
      ''- Any remaining issues that need manual attention'' @ [LF]"

definition buildWorkflowTodo :: "string \<Rightarrow> string list \<Rightarrow> string" where
  "buildWorkflowTodo workflow projects =
     (let workflowAction = map_of WORKFLOW_ACTIONS workflow;
          instructions = map_of WORKFLOW_INSTRUCTIONS workflow;
          todo = todoHeader workflow workflowAction instructions;
          todo = todo @ concat (map (todoLine workflowAction) (enumerate 0 projects));
          todo = todo @ todoFooter
      in todo)"

section \<open>The file system and the operations on it\<close>

text \<open>
  The supervisor acts on the state directory, on file handles and on child processes.
  A \<open>world\<close> holds the text files by path, the paths of the file handles that are open,
  what the tool itself has printed to its console, and the trace of the operations
  attempted so far, oldest first. Of the functions of the source only \<^verbatim>\<open>main\<close> and the
  selection prompts print to the console, and they are not part of this theory; the
  output of a child process is piped, not inherited.
\<close>

datatype js_error = TypeError | IOError

datatype open_mode = Truncate | Append

datatype io_op =
    WriteTextFile string string
  | Spawn string "string list"
  | OpenFile string open_mode
  | HandleWrite string string
  | HandleClose string
  | Settled string "js_error + bool"

record world =
  files :: "string \<Rightarrow> string option"
  handles :: "string list"
  console :: "string list"
  trace :: "io_op list"

text \<open>
  What an operation does when the operating system accepts it. \<^verbatim>\<open>Deno.open\<close> is always
  called with \<^verbatim>\<open>write\<close> and \<^verbatim>\<open>create\<close>: a missing file is created empty,
  \<^verbatim>\<open>truncate\<close> empties an existing one and \<^verbatim>\<open>append\<close> keeps it. The handle is the
  only writer of its file, so each write extends the content.
\<close>

fun effect :: "io_op \<Rightarrow> world \<Rightarrow> world" where
  "effect (WriteTextFile path content) st = st\<lparr>files := (files st)(path \<mapsto> content)\<rparr>"
| "effect (Spawn cmd args) st = st"
| "effect (OpenFile path mode) st =
     st\<lparr>files := (files st)(path \<mapsto>
            (case mode of
               Truncate \<Rightarrow> []
             | Append \<Rightarrow> (case files st path of None \<Rightarrow> [] | Some content \<Rightarrow> content))),
        handles := path # handles st\<rparr>"
| "effect (HandleWrite path bytes) st =
     st\<lparr>files := (files st)(path \<mapsto>
            (case files st path of None \<Rightarrow> bytes | Some content \<Rightarrow> content @ bytes))\<rparr>"
| "effect (HandleClose path) st = st\<lparr>handles := remove1 path (handles st)\<rparr>"
| "effect (Settled workflow outcome) st = st"

text \<open>
  Every operation may be rejected by the operating system, which the source sees as a
  thrown error. Which ones are rejected is the environment's choice, given as a function
  \<open>flt\<close> of the trace so far and the operation. An attempted operation is appended to
  the trace whether it is accepted or not; a rejected one has no other effect. (Closing a
  handle is not an operation that is rejected.)
\<close>

type_synonym 'a io = "world \<Rightarrow> (js_error + 'a) \<times> world"

definition perform :: "(io_op list \<Rightarrow> io_op \<Rightarrow> bool) \<Rightarrow> io_op \<Rightarrow> unit io" where
  "perform flt op st =
     (let st' = st\<lparr>trace := trace st @ [op]\<rparr>
      in if flt (trace st) op then (Inl IOError, st') else (Inr (), effect op st'))"

definition returnIO :: "'a \<Rightarrow> 'a io" where
  "returnIO x st = (Inr x, st)"

definition bindIO :: "'a io \<Rightarrow> ('a \<Rightarrow> 'b io) \<Rightarrow> 'b io" where
  "bindIO m f st = (case m st of (Inl e, st') \<Rightarrow> (Inl e, st') | (Inr x, st') \<Rightarrow> f x st')"

section \<open>The process supervisor\<close>

text \<open>\<^verbatim>\<open>wasWorkflowAbandoned\<close>: a status file that cannot be read counts as not abandoned.\<close>

definition wasWorkflowAbandoned :: "world \<Rightarrow> string \<Rightarrow> bool" where
  "wasWorkflowAbandoned st workflow =
     (case files st (statusFile workflow) of
        None \<Rightarrow> False
      | Some status \<Rightarrow> trim status = ''RUNNING'')"

text \<open>
  What one call of \<^verbatim>\<open>runWorkflowSession\<close> meets: the operations that are rejected, the
  clock, and the child process. The child is one that exits: \<open>reads\<close> lists, in the order
  of arrival, what the two stream readers deliver until both streams are closed, a chunk
  or a failed read, and \<open>exit_status\<close> is what \<^verbatim>\<open>process.status\<close> resolves to
  (\<open>None\<close> when that promise rejects).
\<close>

datatype stream = Stdout | Stderr

datatype read_event = Chunk stream string | ReadError stream

record env =
  fault :: "io_op list \<Rightarrow> io_op \<Rightarrow> bool"
  now :: string
  reads :: "read_event list"
  exit_status :: "bool option"

definition resumeMarker :: "string \<Rightarrow> string" where
  "resumeMarker timestamp =
     [LF, LF] @ replicate 80 (CHR ''='') @ [LF] @ ''RESUMING WORKFLOW AT '' @ timestamp @ [LF] @
     replicate 80 (CHR ''='') @ [LF, LF]"

text \<open>
  The start of \<^verbatim>\<open>runWorkflowSession\<close>, up to the \<^verbatim>\<open>try\<close> block: the resume decision,
  the status and prompt files of a fresh session, the child process, the log handle and
  the resume marker. It yields \<^verbatim>\<open>shouldResume\<close>.
\<close>

definition startSession :: "env \<Rightarrow> string \<Rightarrow> string list \<Rightarrow> bool io" where
  "startSession env workflow projects st =
     (let shouldResume = wasWorkflowAbandoned st workflow;
          prompt = buildWorkflowTodo workflow projects
      in bindIO
           (if shouldResume then
              returnIO [''--resume'', ''--allow-all-tools'', ''--allow-all-paths'']
            else
              bindIO (perform (fault env) (WriteTextFile (statusFile workflow) ''RUNNING'')) (\<lambda>_.
              bindIO (perform (fault env) (WriteTextFile (promptFile workflow) prompt)) (\<lambda>_.
              returnIO [''-p'', prompt, ''--allow-all-tools'', ''--allow-all-paths''])))
           (\<lambda>copilotArgs.
              bindIO (perform (fault env) (Spawn ''copilot'' copilotArgs)) (\<lambda>_.
              bindIO (perform (fault env)
                        (OpenFile (logFile workflow) (if shouldResume then Append else Truncate))) (\<lambda>_.
              bindIO (if shouldResume then
                        perform (fault env) (HandleWrite (logFile workflow) (resumeMarker (now env)))
                      else returnIO ()) (\<lambda>_.
              returnIO shouldResume))))
           st)"

text \<open>
  The two reader loops of the \<^verbatim>\<open>try\<close> block, merged in the order in which the reads
  complete. A loop writes each chunk it reads to the log handle; a failed read or a
  failed write ends that loop (the \<^verbatim>\<open>catch\<close> inside it), and what the stream delivers
  after that is never read. \<open>stopped\<close> lists the loops that have ended that way.
\<close>

fun drain :: "(io_op list \<Rightarrow> io_op \<Rightarrow> bool) \<Rightarrow> string \<Rightarrow> read_event list \<Rightarrow> stream list \<Rightarrow> world \<Rightarrow> world" where
  "drain flt path [] stopped st = st"
| "drain flt path (Chunk src bytes # evs) stopped st =
     (if src \<in> set stopped then drain flt path evs stopped st
      else
        (case perform flt (HandleWrite path bytes) st of
           (Inl e, st') \<Rightarrow> drain flt path evs (src # stopped) st'
         | (Inr u, st') \<Rightarrow> drain flt path evs stopped st'))"
| "drain flt path (ReadError src # evs) stopped st = drain flt path evs (src # stopped) st"

definition closeHandle :: "string \<Rightarrow> world \<Rightarrow> world" where
  "closeHandle path st = effect (HandleClose path) (st\<lparr>trace := trace st @ [HandleClose path]\<rparr>)"

text \<open>The \<^verbatim>\<open>try\<close> block and its \<^verbatim>\<open>finally\<close>, which closes the log handle on every path.\<close>

definition superviseSession :: "env \<Rightarrow> string \<Rightarrow> bool io" where
  "superviseSession env workflow st =
     (let st1 = drain (fault env) (logFile workflow) (reads env) [] st;
          (r, st2) =
            (case exit_status env of
               None \<Rightarrow> (Inl IOError, st1)
             | Some success \<Rightarrow>
                 if success then
                   bindIO (perform (fault env) (WriteTextFile (statusFile workflow) ''COMPLETED''))
                     (\<lambda>_. returnIO True) st1
                 else
                   bindIO (perform (fault env) (WriteTextFile (statusFile workflow) ''FAILED''))
                     (\<lambda>_. returnIO False) st1)
      in (r, closeHandle (logFile workflow) st2))"

definition runWorkflowSession :: "env \<Rightarrow> string \<Rightarrow> string list \<Rightarrow> bool io" where
  "runWorkflowSession env workflow projects =
     bindIO (startSession env workflow projects) (\<lambda>shouldResume. superviseSession env workflow)"

section \<open>The session orchestrator\<close>

text \<open>
  \<^verbatim>\<open>runAllWorkflows\<close> starts one session per ordered workflow and awaits
  \<^verbatim>\<open>Promise.all\<close> of them. Sessions of different workflows work on different files, so
  each session is taken as one step, and the steps are taken in the order in which the
  sessions settle; that order is the environment's (\<open>finish_rank\<close>). \<^verbatim>\<open>Promise.all\<close>
  resolves when every promise has resolved and rejects as soon as one rejects: the
  sessions that have not settled by then are still running when the orchestrator's own
  promise rejects. The settling of a session is recorded in the trace.
\<close>

record run_env =
  session_env :: "string \<Rightarrow> env"
  finish_rank :: "string \<Rightarrow> nat"
  run_fault :: "io_op list \<Rightarrow> io_op \<Rightarrow> bool"

definition settle :: "string \<Rightarrow> js_error + bool \<Rightarrow> world \<Rightarrow> world" where
  "settle workflow outcome st = st\<lparr>trace := trace st @ [Settled workflow outcome]\<rparr>"

fun promiseAll :: "run_env \<Rightarrow> string list \<Rightarrow> string list \<Rightarrow> unit io" where
  "promiseAll renv projects [] st = (Inr (), st)"
| "promiseAll renv projects (workflow # rest) st =
     (case runWorkflowSession (session_env renv workflow) workflow projects st of
        (Inl e, st') \<Rightarrow> (Inl e, settle workflow (Inl e) st')
      | (Inr ok, st') \<Rightarrow> promiseAll renv projects rest (settle workflow (Inr ok) st'))"

definition joinWith :: "string \<Rightarrow> string list \<Rightarrow> string" where
  "joinWith sep xs = concat (case xs of [] \<Rightarrow> [] | x # ys \<Rightarrow> x # map (\<lambda>y. sep @ y) ys)"

definition runAllWorkflows :: "run_env \<Rightarrow> string list \<Rightarrow> string list \<Rightarrow> unit io" where
  "runAllWorkflows renv workflows projects st =
     (let workflowsSnapshot = workflows;
          orderedWorkflows = filter (\<lambda>w. w \<in> set workflows) WORKFLOW_ORDER;
          abandonedWorkflows = filter (wasWorkflowAbandoned st) orderedWorkflows
      in bindIO
           (if length abandonedWorkflows > 0 then
              perform (run_fault renv)
                (WriteTextFile (STATE_DIR @ ''/resume-status.txt'')
                   (''Resuming abandoned workflows: '' @ joinWith '', '' abandonedWorkflows @ [LF]))
            else returnIO ()) (\<lambda>_.
           bindIO (promiseAll renv projects (sort_key (finish_rank renv) orderedWorkflows)) (\<lambda>_.
           perform (run_fault renv)
             (WriteTextFile WORKFLOWS_FILE (joinWith [LF] workflowsSnapshot))))
           st)"

section \<open>Status and progress derivation\<close>

text \<open>
  The progress file is written by the supervised tool and read with \<^verbatim>\<open>JSON.parse\<close>, so
  what \<^verbatim>\<open>getWorkflowProgress\<close> returns is any JSON value: the cast to
  \<^verbatim>\<open>WorkflowProgress\<close> checks nothing when the program runs. (The source reads a
  number only for whether it is zero, so whole numbers stand for all of them.)
\<close>

datatype json =
    JNull
  | JBool bool
  | JNum int
  | JStr string
  | JArr "json list"
  | JObj "(string \<times> json) list"

text \<open>
  The two library functions whose grammar is not part of the repository: \<^verbatim>\<open>JSON.parse\<close>
  (\<open>None\<close> when it throws a SyntaxError) and the regular-expression engine for a pattern
  source with the flag \<^verbatim>\<open>i\<close> (\<open>None\<close> when \<^verbatim>\<open>new RegExp\<close> throws a SyntaxError,
  otherwise whether the text has a match).
\<close>

record runtime =
  JSON_parse :: "string \<Rightarrow> json option"
  RegExp_test :: "string \<Rightarrow> string \<Rightarrow> bool option"

datatype project_status = PASS | RUNNING | PENDING

definition getWorkflowProgress :: "runtime \<Rightarrow> world \<Rightarrow> string \<Rightarrow> json option" where
  "getWorkflowProgress rt st workflow =
     (case files st (progressFile workflow) of
        None \<Rightarrow> None
      | Some content \<Rightarrow> JSON_parse rt content)"

text \<open>The truth value of a JSON value in a condition.\<close>

fun truthy :: "json \<Rightarrow> bool" where
  "truthy JNull = False"
| "truthy (JBool b) = b"
| "truthy (JNum n) = (n \<noteq> 0)"
| "truthy (JStr s) = (s \<noteq> [])"
| "truthy (JArr xs) = True"
| "truthy (JObj kvs) = True"

text \<open>
  Reading a property that holds data: of an object it is the value of the key (the last
  one, when the text repeats a key), of any other value that is not \<^verbatim>\<open>null\<close> it is
  \<^verbatim>\<open>undefined\<close> (\<open>None\<close>) for the two names read here.
\<close>

fun getProp :: "json \<Rightarrow> string \<Rightarrow> json option" where
  "getProp (JObj kvs) name = map_of (rev kvs) name"
| "getProp v name = None"

fun includesStr :: "string \<Rightarrow> string \<Rightarrow> bool" where
  "includesStr [] sub = (sub = [])"
| "includesStr (c # cs) sub = (if take (length sub) (c # cs) = sub then True else includesStr cs sub)"

text \<open>
  The call \<^verbatim>\<open>x.includes(project)\<close>: an array has the method (membership, and only a
  string equals a string) and so has a string (containment); \<^verbatim>\<open>undefined\<close> and \<^verbatim>\<open>null\<close>
  have no properties, and on a number, a boolean or an object \<^verbatim>\<open>includes\<close> is not a
  function: all of these throw a TypeError.
\<close>

fun callIncludes :: "json option \<Rightarrow> string \<Rightarrow> js_error + bool" where
  "callIncludes (Some (JArr xs)) project = Inr (JStr project \<in> set xs)"
| "callIncludes (Some (JStr s)) project = Inr (includesStr s project)"
| "callIncludes x project = Inl TypeError"

definition lowerChar :: "char \<Rightarrow> char" where
  "lowerChar c =
     (if (65 \<le> code c \<and> code c \<le> 90) \<or> (192 \<le> code c \<and> code c \<le> 214) \<or>
         (216 \<le> code c \<and> code c \<le> 222)
      then char_of (code c + 32) else c)"

definition toLowerCase :: "string \<Rightarrow> string" where
  "toLowerCase s = map lowerChar s"

text \<open>
  The pattern \<^verbatim>\<open>${project}.*(?:done|completed|pass)\<close> with the flag \<^verbatim>\<open>i\<close>. When the project
  name has none of the characters that regular-expression syntax gives a meaning to, the
  pattern matches where the name stands, in any letter case, followed on the same line
  (the dot matches no line terminator) by one of the three keywords in any letter case.
  For any other name the pattern is left to the engine.
\<close>

definition isSyntaxChar :: "char \<Rightarrow> bool" where
  "isSyntaxChar c = (c \<in> set (''^$.*+?()[]{}|'' @ [CHR 0x5C]))"

definition startsWithCI :: "string \<Rightarrow> string \<Rightarrow> bool" where
  "startsWithCI word s = (take (length word) (toLowerCase s) = toLowerCase word)"

fun doneAhead :: "string \<Rightarrow> bool" where
  "doneAhead [] = False"
| "doneAhead (c # cs) =
     (if startsWithCI ''done'' (c # cs) \<or> startsWithCI ''completed'' (c # cs) \<or>
         startsWithCI ''pass'' (c # cs) then True
      else if c = LF \<or> c = CR then False
      else doneAhead cs)"

fun matchesDone :: "string \<Rightarrow> string \<Rightarrow> bool" where
  "matchesDone project [] = False"
| "matchesDone project (c # cs) =
     (if startsWithCI project (c # cs) \<and> doneAhead (drop (length project) (c # cs)) then True
      else matchesDone project cs)"

definition matchDone :: "runtime \<Rightarrow> string \<Rightarrow> string \<Rightarrow> bool option" where
  "matchDone rt project logText =
     (if list_ex isSyntaxChar project then
        RegExp_test rt (project @ ''.*(?:done|completed|pass)'') logText
      else Some (matchesDone project logText))"

text \<open>
  \<^verbatim>\<open>getProjectStatus\<close>. The strings it returns carry a glyph before the word; the three
  values are told apart by the word. The reading of the progress record is outside any
  \<^verbatim>\<open>try\<close>; the log fallback is inside one, whose \<^verbatim>\<open>catch\<close> falls through to PENDING.
\<close>

definition logStatus :: "runtime \<Rightarrow> world \<Rightarrow> string \<Rightarrow> string \<Rightarrow> project_status" where
  "logStatus rt st project workflow =
     (case files st (logFile workflow) of
        None \<Rightarrow> PENDING
      | Some logText \<Rightarrow>
          if includesStr (toLowerCase logText) (toLowerCase project) then
            (case matchDone rt project logText of
               None \<Rightarrow> PENDING
             | Some m \<Rightarrow> if m then PASS else RUNNING)
          else PENDING)"

definition getProjectStatus :: "runtime \<Rightarrow> world \<Rightarrow> string \<Rightarrow> string \<Rightarrow> js_error + project_status" where
  "getProjectStatus rt st project workflow =
     (case getWorkflowProgress rt st workflow of
        None \<Rightarrow> Inr (logStatus rt st project workflow)
      | Some progress \<Rightarrow>
          if truthy progress then
            (case callIncludes (getProp progress ''completed_projects'') project of
               Inl e \<Rightarrow> Inl e
             | Inr completed \<Rightarrow>
                 if completed then Inr PASS
                 else if getProp progress ''current_project'' = Some (JStr project) then Inr RUNNING
                 else Inr (logStatus rt st project workflow))
          else Inr (logStatus rt st project workflow))"

section \<open>The dashboard\<close>

text \<open>
  \<^verbatim>\<open>process.stdout.rows || 40\<close>: the row count is \<^verbatim>\<open>undefined\<close> (\<open>None\<close>) when the output is
  not a terminal, and a count of zero reads as false.
\<close>

definition terminalHeight :: "int option \<Rightarrow> int" where
  "terminalHeight rows = (case rows of None \<Rightarrow> 40 | Some r \<Rightarrow> if r = 0 then 40 else r)"

definition headerHeight :: int where
  "headerHeight = 3"

definition footerHeight :: int where
  "footerHeight = 3"

definition workflowHeaderHeight :: int where
  "workflowHeaderHeight = 4"

definition orderedWorkflowsOf :: "string list \<Rightarrow> string list" where
  "orderedWorkflowsOf workflows = filter (\<lambda>w. w \<in> set workflows) WORKFLOW_ORDER"

text \<open>
  The expanded set holds what \<^verbatim>\<open>orderedWorkflows[selectedIndex]\<close> gave, which is
  \<^verbatim>\<open>undefined\<close> (\<open>None\<close>) for an index outside the list. The handler that \<^verbatim>\<open>useInput\<close>
  has registered is a closure of one render of the component: the \<^verbatim>\<open>selectedIndex\<close> it
  reads is the constant of that render, \<open>renderedIndex\<close>, not the state as it is when the
  key arrives.
\<close>

record dashboard =
  selectedIndex :: int
  expandedSet :: "string option set"
  exited :: bool
  renderedIndex :: int


definition availableHeight :: "int option \<Rightarrow> string list \<Rightarrow> dashboard \<Rightarrow> int" where
  "availableHeight rows workflows d =
     (let orderedWorkflows = orderedWorkflowsOf workflows;
          expandedCount = int (card (expandedSet d));
          collapsedCount = int (length orderedWorkflows) - expandedCount
      in terminalHeight rows - headerHeight - footerHeight
           - expandedCount * workflowHeaderHeight
           - collapsedCount * workflowHeaderHeight)"

text \<open>\<^verbatim>\<open>Math.floor\<close> of the quotient of the two numbers.\<close>

definition logHeightPerWorkflow :: "int option \<Rightarrow> string list \<Rightarrow> dashboard \<Rightarrow> int" where
  "logHeightPerWorkflow rows workflows d =
     (let expandedCount = int (card (expandedSet d))
      in if expandedCount > 0 then
           \<lfloor>real_of_int (availableHeight rows workflows d) / real_of_int expandedCount\<rfloor>
         else 0)"










section \<open>Dashboard states that are in range\<close>


section \<open>Inputs of the examples\<close>





definition emptyWorld :: world where
  "emptyWorld = \<lparr>files = Map.empty, handles = [], console = [], trace = []\<rparr>"

definition exampleProgress :: json where
  "exampleProgress =
     JObj [(''current_project'', JStr ''web''), (''current_task'', JNum 2),
           (''completed_projects'', JArr [JStr ''api''])]"

definition exampleProgressText :: string where
  "exampleProgressText = ''{\"current_project\":\"web\",\"current_task\":2,\"completed_projects\":[\"api\"]}''"

text \<open>
  A second progress record, in which \<^verbatim>\<open>web\<close> is both the current project and a completed
  one, and a runtime whose parser knows the three documents of the examples.
\<close>

definition bothProgress :: json where
  "bothProgress =
     JObj [(''current_project'', JStr ''web''), (''current_task'', JNum 3),
           (''completed_projects'', JArr [JStr ''api'', JStr ''web''])]"

definition bothProgressText :: string where
  "bothProgressText = ''{\"current_project\":\"web\",\"current_task\":3,\"completed_projects\":[\"api\",\"web\"]}''"

definition parseExample :: "string \<Rightarrow> json option" where
  "parseExample content =
     (if content = exampleProgressText then Some exampleProgress
      else if content = ''{}'' then Some (JObj [])
      else if content = bothProgressText then Some bothProgress
      else None)"

definition noRegExp :: "string \<Rightarrow> string \<Rightarrow> bool option" where
  "noRegExp source text = None"

definition exampleRuntime :: runtime where
  "exampleRuntime = \<lparr>JSON_parse = parseExample, RegExp_test = noRegExp\<rparr>"


definition brokenWorld :: world where
  "brokenWorld = emptyWorld\<lparr>files := [progressFile ''lint'' \<mapsto> ''{}'']\<rparr>"

definition passWorld :: world where
  "passWorld = emptyWorld\<lparr>files := [progressFile ''lint'' \<mapsto> exampleProgressText,
                                     logFile ''lint'' \<mapsto> ''DOCS: all checks Passed'']\<rparr>"

definition bothWorld :: world where
  "bothWorld = emptyWorld\<lparr>files := [progressFile ''lint'' \<mapsto> bothProgressText]\<rparr>"

definition noFault :: "io_op list \<Rightarrow> io_op \<Rightarrow> bool" where
  "noFault history op = False"

definition exampleEnv :: env where
  "exampleEnv =
     \<lparr>fault = noFault, now = ''2025-10-31T12:00:00.000Z'',
      reads = [Chunk Stdout ''checking'', Chunk Stderr ''warning'', ReadError Stderr],
      exit_status = Some True\<rparr>"

definition abandonedWorld :: world where
  "abandonedWorld =
     emptyWorld\<lparr>files := [statusFile ''lint'' \<mapsto> ''RUNNING'' @ [LF], logFile ''lint'' \<mapsto> ''earlier output'']\<rparr>"

text \<open>
  An environment in which the write of the resume marker to the log handle is rejected
  (a full disk, say) and nothing else is.
\<close>

definition markerFault :: "io_op list \<Rightarrow> io_op \<Rightarrow> bool" where
  "markerFault history op = (case op of HandleWrite path bytes \<Rightarrow> True | _ \<Rightarrow> False)"

definition markerFailsEnv :: env where
  "markerFailsEnv = exampleEnv\<lparr>fault := markerFault, reads := []\<rparr>"

section \<open>Describing a session\<close>

text \<open>
  Names for what the statements about a session speak of: the writes of chunks that the
  child process has produced, the operations of the \<^verbatim>\<open>try\<close> block, the operations of
  the start of a session when all of them are accepted, the log as it was before the
  session, the world after the two reader loops, and the status word of an exit.
\<close>

definition resumeArgs :: "string list" where
  "resumeArgs = [''--resume'', ''--allow-all-tools'', ''--allow-all-paths'']"

definition chunkWrite :: "string \<Rightarrow> read_event list \<Rightarrow> io_op \<Rightarrow> bool" where
  "chunkWrite path evs op =
     (case op of
        HandleWrite p b \<Rightarrow> p = path \<and> (Chunk Stdout b \<in> set evs \<or> Chunk Stderr b \<in> set evs)
      | _ \<Rightarrow> False)"

definition superviseOp :: "env \<Rightarrow> string \<Rightarrow> io_op \<Rightarrow> bool" where
  "superviseOp env w op =
     (chunkWrite (logFile w) (reads env) op \<or>
      op = WriteTextFile (statusFile w) ''COMPLETED'' \<or>
      op = WriteTextFile (statusFile w) ''FAILED'' \<or>
      op = HandleClose (logFile w))"

definition freshArgs :: "string \<Rightarrow> string list" where
  "freshArgs prompt = [''-p'', prompt, ''--allow-all-tools'', ''--allow-all-paths'']"

definition startOps :: "env \<Rightarrow> string \<Rightarrow> string list \<Rightarrow> bool \<Rightarrow> io_op list" where
  "startOps env w ps resumed =
     (if resumed then
        [Spawn ''copilot'' resumeArgs,
         OpenFile (logFile w) Append,
         HandleWrite (logFile w) (resumeMarker (now env))]
      else
        [WriteTextFile (statusFile w) ''RUNNING'',
         WriteTextFile (promptFile w) (buildWorkflowTodo w ps),
         Spawn ''copilot'' (freshArgs (buildWorkflowTodo w ps)),
         OpenFile (logFile w) Truncate])"

definition oldLog :: "world \<Rightarrow> string \<Rightarrow> string" where
  "oldLog st w = (case files st (logFile w) of None \<Rightarrow> [] | Some c \<Rightarrow> c)"

definition drained :: "env \<Rightarrow> string \<Rightarrow> world \<Rightarrow> world" where
  "drained env w st = drain (fault env) (logFile w) (reads env) [] st"

definition finalStatus :: "bool \<Rightarrow> string" where
  "finalStatus success = (if success then ''COMPLETED'' else ''FAILED'')"

section \<open>Describing a run of the orchestrator\<close>

text \<open>
  Names for what the statements about \<^verbatim>\<open>runAllWorkflows\<close> speak of: the trace entries that
  record a settled session, the two writes of the orchestrator itself, the order in which
  the sessions settle, a world with one more attempted operation, and the world after
  the abandoned workflows have been recorded.
\<close>

definition isSettled :: "io_op \<Rightarrow> bool" where
  "isSettled op = (case op of Settled w outcome \<Rightarrow> True | _ \<Rightarrow> False)"

definition resumeStatusOp :: "string list \<Rightarrow> world \<Rightarrow> io_op" where
  "resumeStatusOp workflows st =
     WriteTextFile (STATE_DIR @ ''/resume-status.txt'')
       (''Resuming abandoned workflows: '' @
        joinWith '', '' (filter (wasWorkflowAbandoned st) (orderedWorkflowsOf workflows)) @ [LF])"

definition selectionOp :: "string list \<Rightarrow> io_op" where
  "selectionOp workflows = WriteTextFile WORKFLOWS_FILE (joinWith [LF] workflows)"

definition settleOrder :: "run_env \<Rightarrow> string list \<Rightarrow> string list" where
  "settleOrder renv workflows = sort_key (finish_rank renv) (orderedWorkflowsOf workflows)"

definition attempted :: "io_op \<Rightarrow> world \<Rightarrow> world" where
  "attempted op st = st\<lparr>trace := trace st @ [op]\<rparr>"

definition announce :: "string list \<Rightarrow> world \<Rightarrow> world" where
  "announce workflows st =
     (if 0 < length (filter (wasWorkflowAbandoned st) (orderedWorkflowsOf workflows))
      then effect (resumeStatusOp workflows st) (attempted (resumeStatusOp workflows st) st)
      else st)"


definition typeFirst :: "string \<Rightarrow> nat" where
  "typeFirst w = (if w = ''type'' then 0 else 1)"

definition typeFailsEnv :: "string \<Rightarrow> env" where
  "typeFailsEnv w = (if w = ''type'' then exampleEnv\<lparr>exit_status := Some False\<rparr> else exampleEnv)"

definition typeFailsRun :: run_env where
  "typeFailsRun = \<lparr>session_env = typeFailsEnv, finish_rank = typeFirst, run_fault = noFault\<rparr>"




section \<open>Properties of the log line sanitiser\<close>

lemma dropWhile_hd_id: "xs = [] \<or> \<not> P (hd xs) \<Longrightarrow> dropWhile P xs = xs"
  by (cases xs) auto

lemma trim_trim: "trim (trim s) = trim s"
proof -
  let ?d = "dropWhile isSpaceJS s"
  let ?t = "dropWhile isSpaceJS (rev ?d)"
  have split: "?d = rev ?t @ rev (takeWhile isSpaceJS (rev ?d))"
    by (metis rev_append rev_rev_ident takeWhile_dropWhile_id)
  have "rev ?t = [] \<or> \<not> isSpaceJS (hd (rev ?t))"
  proof (cases "rev ?t = []")
    case True
    then show ?thesis by simp
  next
    case False
    then have "hd (rev ?t) = hd ?d"
      using split by (metis hd_append2)
    moreover have "?d \<noteq> []"
    proof
      assume "?d = []"
      then have "?t = []" by (simp only: rev.simps(1) dropWhile.simps(1))
      with False show False by simp
    qed
    then have "\<not> isSpaceJS (hd ?d)" by (rule hd_dropWhile)
    ultimately show ?thesis by simp
  qed
  then have "dropWhile isSpaceJS (rev ?t) = rev ?t"
    by (rule dropWhile_hd_id)
  then show ?thesis
    unfolding trim_def by simp
qed



lemma trim_id:
  "s = [] \<or> (\<not> isSpaceJS (hd s) \<and> \<not> isSpaceJS (last s)) \<Longrightarrow> trim s = s"
proof (cases "s = []")
  case True
  then show ?thesis by (simp add: trim_def)
next
  case False
  assume "s = [] \<or> (\<not> isSpaceJS (hd s) \<and> \<not> isSpaceJS (last s))"
  with False have h: "\<not> isSpaceJS (hd s)" and l: "\<not> isSpaceJS (last s)" by auto
  from h False have 1: "dropWhile isSpaceJS s = s" by (cases s) auto
  from l False have "\<not> isSpaceJS (hd (rev s))" by (simp add: hd_rev)
  with False have 2: "dropWhile isSpaceJS (rev s) = rev s" by (cases "rev s") auto
  from 1 2 show ?thesis by (simp add: trim_def)
qed







lemma ESC_control: "isControl ESC"
  by (simp add: isControl_def ESC_def code_def)





section \<open>Properties of the dashboard\<close>

lemma WORKFLOW_ORDER_distinct: "distinct WORKFLOW_ORDER"
  by (simp add: WORKFLOW_ORDER_def)


text \<open>
  Claim C7. The available height is the terminal height less the header and footer
  heights less the per-workflow header height times the number of ordered workflows, for
  every row count, workflow list and expanded set; the log height of an expanded workflow
  is the floor of the available height divided by the number of expanded workflows, and 0
  when none is expanded. The terminal height is the reported row count, or 40 when none
  (or zero) is reported.
\<close>

theorem dashboard_layout:
  "availableHeight rows workflows d =
     terminalHeight rows - (headerHeight + footerHeight)
       - workflowHeaderHeight * int (length (orderedWorkflowsOf workflows))
   \<and> logHeightPerWorkflow rows workflows d =
       (if 0 < card (expandedSet d)
        then availableHeight rows workflows d div int (card (expandedSet d)) else 0)
   \<and> terminalHeight (Some r) = (if r = 0 then 40 else r)
   \<and> terminalHeight None = 40"
proof -
  have a: "availableHeight rows workflows d =
     terminalHeight rows - (headerHeight + footerHeight)
       - workflowHeaderHeight * int (length (orderedWorkflowsOf workflows))"
    by (simp add: availableHeight_def Let_def algebra_simps)
  have b: "logHeightPerWorkflow rows workflows d =
       (if 0 < card (expandedSet d)
        then availableHeight rows workflows d div int (card (expandedSet d)) else 0)"
  proof -
    have "\<lfloor>real_of_int a / real_of_int (int n)\<rfloor> = a div int n" for a n
      by (rule floor_divide_of_int_eq)
    then show ?thesis
      by (simp add: logHeightPerWorkflow_def Let_def)
  qed
  have c: "terminalHeight (Some r) = (if r = 0 then 40 else r)" "terminalHeight None = 40"
    by (simp_all add: terminalHeight_def)
  from a b c show ?thesis by simp
qed











section \<open>Properties of the status derivation\<close>







text \<open>
  Claim C4. \<^verbatim>\<open>getProjectStatus\<close> throws a TypeError whenever the progress file parses to
  a value that counts as true and has no \<^verbatim>\<open>completed_projects\<close>, such as the document
  \<^verbatim>\<open>{}\<close>: the call of \<^verbatim>\<open>includes\<close> on it is outside every \<^verbatim>\<open>try\<close>.
\<close>

theorem getProjectStatus_throws:
  assumes "getWorkflowProgress rt st w = Some progress" and "truthy progress"
    and "getProp progress ''completed_projects'' = None"
  shows "getProjectStatus rt st project w = Inl TypeError"
  using assms by (simp add: getProjectStatus_def)

theorem getProjectStatus_throws_witness:
  "getWorkflowProgress exampleRuntime brokenWorld ''lint'' = Some (JObj [])
   \<and> truthy (JObj []) \<and> getProp (JObj []) ''completed_projects'' = None
   \<and> getProjectStatus exampleRuntime brokenWorld ''api'' ''lint'' = Inl TypeError"
proof -
  have h: "getWorkflowProgress exampleRuntime brokenWorld ''lint'' = Some (JObj [])"
    by (simp add: getWorkflowProgress_def brokenWorld_def emptyWorld_def exampleRuntime_def
        parseExample_def exampleProgressText_def)
  have t: "truthy (JObj [])" and g: "getProp (JObj []) ''completed_projects'' = None"
    by simp_all
  from getProjectStatus_throws[OF h t g, of "''api''"] h t g show ?thesis by simp
qed

section \<open>Properties of the process supervisor\<close>

lemma statusFile_neq_logFile: "statusFile a \<noteq> logFile b"
proof
  assume "statusFile a = logFile b"
  then have "last (statusFile a) = last (logFile b)" by simp
  then show False by (simp add: statusFile_def logFile_def)
qed

lemma promptFile_neq_logFile: "promptFile a \<noteq> logFile b"
proof
  assume "promptFile a = logFile b"
  then have "last (promptFile a) = last (logFile b)" by simp
  then show False by (simp add: promptFile_def logFile_def)
qed

lemma statusFile_neq_promptFile: "statusFile a \<noteq> promptFile b"
proof
  assume "statusFile a = promptFile b"
  then have "last (statusFile a) = last (promptFile b)" by simp
  then show False by (simp add: statusFile_def promptFile_def)
qed

lemma logFile_inj: "logFile a = logFile b \<Longrightarrow> a = b"
  by (simp add: logFile_def)

lemma statusFile_inj: "statusFile a = statusFile b \<Longrightarrow> a = b"
  by (simp add: statusFile_def)

lemma promptFile_inj: "promptFile a = promptFile b \<Longrightarrow> a = b"
  by (simp add: promptFile_def)

lemma drain_console: "console (drain flt path evs stopped st) = console st"
  by (induction flt path evs stopped st rule: drain.induct)
     (auto simp: perform_def Let_def split: prod.splits sum.splits if_splits)

lemma drain_handles: "handles (drain flt path evs stopped st) = handles st"
  by (induction flt path evs stopped st rule: drain.induct)
     (auto simp: perform_def Let_def split: prod.splits sum.splits if_splits)

lemma drain_files_other: "p \<noteq> path \<Longrightarrow> files (drain flt path evs stopped st) p = files st p"
  by (induction flt path evs stopped st rule: drain.induct)
     (auto simp: perform_def Let_def split: prod.splits sum.splits if_splits)


lemma chunkWrite_mono: "list_all (chunkWrite path evs) ops \<Longrightarrow> list_all (chunkWrite path (ev # evs)) ops"
  by (auto simp: list_all_iff chunkWrite_def split: io_op.splits)

lemma chunkWrite_here: "chunkWrite path (Chunk src bytes # evs) (HandleWrite path bytes)"
  by (cases src) (simp_all add: chunkWrite_def)

lemma drain_trace:
  "\<exists>ops. trace (drain flt path evs stopped st) = trace st @ ops \<and> list_all (chunkWrite path evs) ops"
proof (induction evs arbitrary: stopped st)
  case Nil
  then show ?case by simp
next
  case (Cons ev evs)
  show ?case
  proof (cases ev)
    case (Chunk src bytes)
    let ?op = "HandleWrite path bytes"
    let ?st = "st\<lparr>trace := trace st @ [?op]\<rparr>"
    consider (skip) "src \<in> set stopped"
      | (fail) "src \<notin> set stopped" "flt (trace st) ?op"
      | (ok) "src \<notin> set stopped" "\<not> flt (trace st) ?op"
      by blast
    then show ?thesis
    proof cases
      case skip
      from Cons.IH[of stopped st] obtain ops
        where "trace (drain flt path evs stopped st) = trace st @ ops"
          and "list_all (chunkWrite path evs) ops" by blast
      with skip Chunk show ?thesis
        by (intro exI[of _ ops]) (simp add: chunkWrite_mono)
    next
      case fail
      from Cons.IH[of "src # stopped" ?st] obtain ops
        where "trace (drain flt path evs (src # stopped) ?st) = trace ?st @ ops"
          and "list_all (chunkWrite path evs) ops" by blast
      with fail Chunk show ?thesis
        by (intro exI[of _ "?op # ops"])
           (simp add: perform_def Let_def chunkWrite_mono chunkWrite_here)
    next
      case ok
      from Cons.IH[of stopped "effect ?op ?st"] obtain ops
        where "trace (drain flt path evs stopped (effect ?op ?st)) = trace (effect ?op ?st) @ ops"
          and "list_all (chunkWrite path evs) ops" by blast
      with ok Chunk show ?thesis
        by (intro exI[of _ "?op # ops"])
           (simp add: perform_def Let_def chunkWrite_mono chunkWrite_here)
    qed
  next
    case (ReadError src)
    from Cons.IH[of "src # stopped" st] obtain ops
      where "trace (drain flt path evs (src # stopped) st) = trace st @ ops"
        and "list_all (chunkWrite path evs) ops" by blast
    with ReadError show ?thesis
      by (intro exI[of _ ops]) (simp add: chunkWrite_mono)
  qed
qed

lemma startSession_resume:
  assumes "wasWorkflowAbandoned st w" and "startSession env w ps st = (Inr r, st1)"
  shows "r" and "trace st1 = trace st @ startOps env w ps True"
    and "handles st1 = logFile w # handles st" and "console st1 = console st"
    and "files st1 = (files st)(logFile w \<mapsto> oldLog st w @ resumeMarker (now env))"
  using assms
  by (auto simp: startSession_def bindIO_def perform_def returnIO_def Let_def startOps_def
      resumeArgs_def oldLog_def split: if_splits option.splits)

lemma startSession_fresh:
  assumes "\<not> wasWorkflowAbandoned st w" and "startSession env w ps st = (Inr r, st1)"
  shows "\<not> r" and "trace st1 = trace st @ startOps env w ps False"
    and "handles st1 = logFile w # handles st" and "console st1 = console st"
    and "files st1 = (files st)(statusFile w \<mapsto> ''RUNNING'',
                               promptFile w \<mapsto> buildWorkflowTodo w ps, logFile w \<mapsto> [])"
  using assms
  by (auto simp: startSession_def bindIO_def perform_def returnIO_def Let_def startOps_def
      freshArgs_def split: if_splits option.splits)

lemma startSession_frame:
  "p \<notin> {statusFile w, promptFile w, logFile w} \<Longrightarrow> files (snd (startSession env w ps st)) p = files st p"
  by (auto simp: startSession_def bindIO_def perform_def returnIO_def Let_def
      split: if_splits option.splits)

lemma startSession_console: "console (snd (startSession env w ps st)) = console st"
  by (auto simp: startSession_def bindIO_def perform_def returnIO_def Let_def
      split: if_splits option.splits)

lemma startSession_resume_keeps:
  "wasWorkflowAbandoned st w \<Longrightarrow>
     files (snd (startSession env w ps st)) (statusFile w) = files st (statusFile w) \<and>
     files (snd (startSession env w ps st)) (promptFile w) = files st (promptFile w)"
  by (auto simp: startSession_def bindIO_def perform_def returnIO_def Let_def
      statusFile_neq_logFile promptFile_neq_logFile split: if_splits option.splits)

lemma superviseSession_frame:
  "p \<notin> {statusFile w, logFile w} \<Longrightarrow> files (snd (superviseSession env w st)) p = files st p"
  by (auto simp: superviseSession_def bindIO_def perform_def returnIO_def Let_def closeHandle_def
      drain_files_other split: if_splits option.splits prod.splits)

lemma superviseSession_console: "console (snd (superviseSession env w st)) = console st"
  by (auto simp: superviseSession_def bindIO_def perform_def returnIO_def Let_def closeHandle_def
      drain_console split: if_splits option.splits prod.splits)

lemma superviseSession_handles:
  "handles (snd (superviseSession env w st)) = remove1 (logFile w) (handles st)"
  by (auto simp: superviseSession_def bindIO_def perform_def returnIO_def Let_def closeHandle_def
      drain_handles split: if_splits option.splits prod.splits)

lemma superviseSession_returns:
  "fst (superviseSession env w st) = Inr b \<Longrightarrow>
     exit_status env = Some b \<and>
     \<not> fault env (trace (drained env w st)) (WriteTextFile (statusFile w) (finalStatus b)) \<and>
     files (snd (superviseSession env w st)) (statusFile w) = Some (finalStatus b)"
  by (auto simp: superviseSession_def bindIO_def perform_def returnIO_def Let_def closeHandle_def
      drained_def finalStatus_def split: if_splits option.splits prod.splits)

lemma superviseSession_exit:
  "exit_status env = Some b \<Longrightarrow>
   \<not> fault env (trace (drained env w st)) (WriteTextFile (statusFile w) (finalStatus b)) \<Longrightarrow>
     fst (superviseSession env w st) = Inr b"
  by (auto simp: superviseSession_def bindIO_def perform_def returnIO_def Let_def closeHandle_def
      drained_def finalStatus_def split: if_splits option.splits prod.splits)


lemma superviseSession_trace:
  "\<exists>ops. trace (snd (superviseSession env w st)) = trace st @ ops @ [HandleClose (logFile w)] \<and>
         list_all (superviseOp env w) ops"
proof -
  from drain_trace[of "fault env" "logFile w" "reads env" "[]" st] obtain ops
    where t: "trace (drained env w st) = trace st @ ops"
      and c: "list_all (chunkWrite (logFile w) (reads env)) ops"
    by (auto simp: drained_def)
  from c have s: "list_all (superviseOp env w) ops"
    by (auto simp: list_all_iff superviseOp_def)
  have "trace (snd (superviseSession env w st)) = trace (drained env w st) @ [HandleClose (logFile w)]
      \<or> (\<exists>b. trace (snd (superviseSession env w st)) =
            trace (drained env w st) @ [WriteTextFile (statusFile w) (finalStatus b), HandleClose (logFile w)])"
    by (auto simp: superviseSession_def bindIO_def perform_def returnIO_def Let_def closeHandle_def
      drained_def finalStatus_def split: if_splits option.splits prod.splits)
  then show ?thesis
  proof
    assume "trace (snd (superviseSession env w st)) = trace (drained env w st) @ [HandleClose (logFile w)]"
    with t s show ?thesis by (intro exI[of _ ops]) simp
  next
    assume "\<exists>b. trace (snd (superviseSession env w st)) =
            trace (drained env w st) @ [WriteTextFile (statusFile w) (finalStatus b), HandleClose (logFile w)]"
    then obtain b where "trace (snd (superviseSession env w st)) =
            trace (drained env w st) @ [WriteTextFile (statusFile w) (finalStatus b), HandleClose (logFile w)]"
      by blast
    with t s show ?thesis
      by (intro exI[of _ "ops @ [WriteTextFile (statusFile w) (finalStatus b)]"])
         (simp add: superviseOp_def finalStatus_def)
  qed
qed

lemma runWorkflowSession_started:
  "startSession env w ps st = (Inr r, st1) \<Longrightarrow> runWorkflowSession env w ps st = superviseSession env w st1"
  by (simp add: runWorkflowSession_def bindIO_def)

lemma runWorkflowSession_not_started:
  "startSession env w ps st = (Inl e, st1) \<Longrightarrow> runWorkflowSession env w ps st = (Inl e, st1)"
  by (simp add: runWorkflowSession_def bindIO_def)

lemma startSession_split:
  "startSession env w ps st = (fst (startSession env w ps st), snd (startSession env w ps st))"
  by simp

lemma runWorkflowSession_split:
  "runWorkflowSession env w ps st =
     (fst (runWorkflowSession env w ps st), snd (runWorkflowSession env w ps st))"
  by simp

lemma runWorkflowSession_cases:
  "snd (runWorkflowSession env w ps st) = snd (startSession env w ps st)
     \<and> (\<exists>e. fst (runWorkflowSession env w ps st) = Inl e)
   \<or> runWorkflowSession env w ps st = superviseSession env w (snd (startSession env w ps st))"
proof (cases "fst (startSession env w ps st)")
  case (Inl e)
  then have "startSession env w ps st = (Inl e, snd (startSession env w ps st))"
    using startSession_split[of env w ps st] by simp
  then have "runWorkflowSession env w ps st = (Inl e, snd (startSession env w ps st))"
    by (rule runWorkflowSession_not_started)
  then show ?thesis by simp
next
  case (Inr r)
  then have "startSession env w ps st = (Inr r, snd (startSession env w ps st))"
    using startSession_split[of env w ps st] by simp
  then have "runWorkflowSession env w ps st = superviseSession env w (snd (startSession env w ps st))"
    by (rule runWorkflowSession_started)
  then show ?thesis by simp
qed

lemma trim_final: "trim (finalStatus b) \<noteq> ''RUNNING''"
  by (simp add: finalStatus_def trim_def isSpaceJS_def code_def)





lemma abandonedWorld_abandoned: "wasWorkflowAbandoned abandonedWorld ''lint''"
proof -
  have t: "trim (''RUNNING'' @ [LF]) = ''RUNNING''"
    by (simp add: trim_def isSpaceJS_def code_def LF_def)
  then show ?thesis
    by (simp add: wasWorkflowAbandoned_def abandonedWorld_def emptyWorld_def
        statusFile_neq_logFile)
qed


lemma fresh_start:
  "fst (startSession exampleEnv ''lint'' [''api'', ''web''] emptyWorld) = Inr False"
proof -
  have a: "\<not> wasWorkflowAbandoned emptyWorld ''lint''"
    by (simp add: wasWorkflowAbandoned_def emptyWorld_def)
  then show ?thesis
    by (simp add: startSession_def bindIO_def perform_def returnIO_def Let_def exampleEnv_def
        noFault_def)
qed


lemma startSession_handles:
  "handles (snd (startSession env w ps st)) =
     (if (\<exists>r. fst (startSession env w ps st) = Inr r) \<or>
         (wasWorkflowAbandoned st w \<and>
            \<not> fault env (trace st)
                (Spawn ''copilot'' [''--resume'', ''--allow-all-tools'', ''--allow-all-paths'']) \<and>
            \<not> fault env
                (trace st @ [Spawn ''copilot'' [''--resume'', ''--allow-all-tools'', ''--allow-all-paths'']])
                (OpenFile (logFile w) Append) \<and>
            fault env
              (trace st @ [Spawn ''copilot'' [''--resume'', ''--allow-all-tools'', ''--allow-all-paths''],
                           OpenFile (logFile w) Append])
              (HandleWrite (logFile w)
                 ([LF, LF] @ replicate 80 (CHR ''='') @ [LF] @ ''RESUMING WORKFLOW AT '' @ now env @ [LF] @
                      replicate 80 (CHR ''='') @ [LF, LF])))
      then logFile w # handles st else handles st)"
  by (auto simp: startSession_def bindIO_def perform_def returnIO_def Let_def resumeMarker_def)

lemma startSession_leak:
  assumes "(wasWorkflowAbandoned st w \<and>
            \<not> fault env (trace st)
                (Spawn ''copilot'' [''--resume'', ''--allow-all-tools'', ''--allow-all-paths'']) \<and>
            \<not> fault env
                (trace st @ [Spawn ''copilot'' [''--resume'', ''--allow-all-tools'', ''--allow-all-paths'']])
                (OpenFile (logFile w) Append) \<and>
            fault env
              (trace st @ [Spawn ''copilot'' [''--resume'', ''--allow-all-tools'', ''--allow-all-paths''],
                           OpenFile (logFile w) Append])
              (HandleWrite (logFile w)
                 ([LF, LF] @ replicate 80 (CHR ''='') @ [LF] @ ''RESUMING WORKFLOW AT '' @ now env @ [LF] @
                      replicate 80 (CHR ''='') @ [LF, LF])))"
  shows "fst (startSession env w ps st) = Inl IOError"
    and "last (trace (snd (startSession env w ps st))) =
           HandleWrite (logFile w)
             ([LF, LF] @ replicate 80 (CHR ''='') @ [LF] @ ''RESUMING WORKFLOW AT '' @ now env @ [LF] @
                      replicate 80 (CHR ''='') @ [LF, LF])"
  using assms
  by (simp_all add: startSession_def bindIO_def perform_def returnIO_def Let_def resumeMarker_def)

text \<open>
  Claim C2. When the start of the session is accepted, the child is under supervision: if
  it exits with success \<open>b\<close> and the write of the final status is accepted, the session
  returns \<open>b\<close>, and on every path out of the \<^verbatim>\<open>try\<close> block (a return, a rejected status
  promise or status write, failed reads) the handle that the session opened is closed, as
  the last operation. Whenever the session returns \<open>b\<close>, the child has exited with
  success \<open>b\<close>, the status file reads \<^verbatim>\<open>COMPLETED\<close> for true and \<^verbatim>\<open>FAILED\<close> for false, and
  a later run does not take it for abandoned. The handles that are open after the session
  are those that were open before it, on every path but one: the resume marker is written
  after the log has been opened and before the \<^verbatim>\<open>try\<close> block is entered, and when that
  write is rejected the session throws with the handle still open and never closes it.
\<close>

theorem runWorkflowSession_completion:
  "(\<forall>r. fst (startSession env w ps st) = Inr r \<longrightarrow>
        (\<forall>b. exit_status env = Some b \<and>
              \<not> fault env (trace (drained env w (snd (startSession env w ps st))))
                   (WriteTextFile (statusFile w) (if b then ''COMPLETED'' else ''FAILED''))
              \<longrightarrow> fst (runWorkflowSession env w ps st) = Inr b)
        \<and> handles (snd (startSession env w ps st)) = logFile w # handles st
        \<and> handles (snd (runWorkflowSession env w ps st)) = handles st
        \<and> (\<exists>ops. trace (snd (runWorkflowSession env w ps st)) =
                  trace st @ ops @ [HandleClose (logFile w)]))
   \<and> (\<forall>b. fst (runWorkflowSession env w ps st) = Inr b \<longrightarrow>
          exit_status env = Some b
          \<and> files (snd (runWorkflowSession env w ps st)) (statusFile w)
              = Some (if b then ''COMPLETED'' else ''FAILED'')
          \<and> \<not> wasWorkflowAbandoned (snd (runWorkflowSession env w ps st)) w)
   \<and> handles (snd (runWorkflowSession env w ps st)) =
        (if (wasWorkflowAbandoned st w \<and>
            \<not> fault env (trace st)
                (Spawn ''copilot'' [''--resume'', ''--allow-all-tools'', ''--allow-all-paths'']) \<and>
            \<not> fault env
                (trace st @ [Spawn ''copilot'' [''--resume'', ''--allow-all-tools'', ''--allow-all-paths'']])
                (OpenFile (logFile w) Append) \<and>
            fault env
              (trace st @ [Spawn ''copilot'' [''--resume'', ''--allow-all-tools'', ''--allow-all-paths''],
                           OpenFile (logFile w) Append])
              (HandleWrite (logFile w)
                 ([LF, LF] @ replicate 80 (CHR ''='') @ [LF] @ ''RESUMING WORKFLOW AT '' @ now env @ [LF] @
                      replicate 80 (CHR ''='') @ [LF, LF])))
         then logFile w # handles st else handles st)
   \<and> ((wasWorkflowAbandoned st w \<and>
            \<not> fault env (trace st)
                (Spawn ''copilot'' [''--resume'', ''--allow-all-tools'', ''--allow-all-paths'']) \<and>
            \<not> fault env
                (trace st @ [Spawn ''copilot'' [''--resume'', ''--allow-all-tools'', ''--allow-all-paths'']])
                (OpenFile (logFile w) Append) \<and>
            fault env
              (trace st @ [Spawn ''copilot'' [''--resume'', ''--allow-all-tools'', ''--allow-all-paths''],
                           OpenFile (logFile w) Append])
              (HandleWrite (logFile w)
                 ([LF, LF] @ replicate 80 (CHR ''='') @ [LF] @ ''RESUMING WORKFLOW AT '' @ now env @ [LF] @
                      replicate 80 (CHR ''='') @ [LF, LF])))
        \<longrightarrow> fst (runWorkflowSession env w ps st) = Inl IOError
          \<and> last (trace (snd (runWorkflowSession env w ps st))) =
                HandleWrite (logFile w)
                  ([LF, LF] @ replicate 80 (CHR ''='') @ [LF] @ ''RESUMING WORKFLOW AT '' @ now env @ [LF] @
                      replicate 80 (CHR ''='') @ [LF, LF])
          \<and> HandleClose (logFile w) \<notin> set (drop (length (trace st))
                  (trace (snd (runWorkflowSession env w ps st)))))"
proof -
  let ?st1 = "snd (startSession env w ps st)"
  let ?st' = "snd (runWorkflowSession env w ps st)"
  let ?leak = "(wasWorkflowAbandoned st w \<and>
            \<not> fault env (trace st)
                (Spawn ''copilot'' [''--resume'', ''--allow-all-tools'', ''--allow-all-paths'']) \<and>
            \<not> fault env
                (trace st @ [Spawn ''copilot'' [''--resume'', ''--allow-all-tools'', ''--allow-all-paths'']])
                (OpenFile (logFile w) Append) \<and>
            fault env
              (trace st @ [Spawn ''copilot'' [''--resume'', ''--allow-all-tools'', ''--allow-all-paths''],
                           OpenFile (logFile w) Append])
              (HandleWrite (logFile w)
                 ([LF, LF] @ replicate 80 (CHR ''='') @ [LF] @ ''RESUMING WORKFLOW AT '' @ now env @ [LF] @
                      replicate 80 (CHR ''='') @ [LF, LF])))"
  have started: "(\<forall>b. exit_status env = Some b \<and>
              \<not> fault env (trace (drained env w ?st1))
                   (WriteTextFile (statusFile w) (if b then ''COMPLETED'' else ''FAILED''))
              \<longrightarrow> fst (runWorkflowSession env w ps st) = Inr b)
        \<and> handles ?st1 = logFile w # handles st
        \<and> handles ?st' = handles st
        \<and> (\<exists>ops. trace ?st' = trace st @ ops @ [HandleClose (logFile w)])"
    if r: "fst (startSession env w ps st) = Inr r" for r
  proof -
    have start: "startSession env w ps st = (Inr r, ?st1)"
      using r startSession_split[of env w ps st] by simp
    have run: "runWorkflowSession env w ps st = superviseSession env w ?st1"
      by (rule runWorkflowSession_started[OF start])
    have a: "\<forall>b. exit_status env = Some b \<and>
              \<not> fault env (trace (drained env w ?st1))
                   (WriteTextFile (statusFile w) (if b then ''COMPLETED'' else ''FAILED''))
              \<longrightarrow> fst (runWorkflowSession env w ps st) = Inr b"
      using superviseSession_exit[of env _ w ?st1] run by (simp add: finalStatus_def)
    have h1: "handles ?st1 = logFile w # handles st"
      using startSession_resume(3)[OF _ start] startSession_fresh(3)[OF _ start] by blast
    have h: "handles ?st' = handles st"
      using superviseSession_handles[of env w ?st1] run h1 by simp
    obtain ops1 where t1: "trace ?st1 = trace st @ ops1"
      using startSession_resume(2)[OF _ start] startSession_fresh(2)[OF _ start] by blast
    from superviseSession_trace[of env w ?st1] obtain ops
      where "trace ?st' = trace ?st1 @ ops @ [HandleClose (logFile w)]"
      using run by auto
    with t1 have t: "\<exists>ops. trace ?st' = trace st @ ops @ [HandleClose (logFile w)]"
      by (intro exI[of _ "ops1 @ ops"]) simp
    from a h1 h t show ?thesis by (intro conjI)
  qed
  have returned: "exit_status env = Some b
          \<and> files ?st' (statusFile w) = Some (if b then ''COMPLETED'' else ''FAILED'')
          \<and> \<not> wasWorkflowAbandoned ?st' w"
    if b: "fst (runWorkflowSession env w ps st) = Inr b" for b
  proof -
    from runWorkflowSession_cases[of env w ps st] b
    have run: "runWorkflowSession env w ps st = superviseSession env w ?st1" by auto
    from superviseSession_returns[of env w ?st1 b] b run
    have "exit_status env = Some b" and f: "files ?st' (statusFile w) = Some (finalStatus b)"
      by simp_all
    moreover from f have "\<not> wasWorkflowAbandoned ?st' w"
      using trim_final[of b] by (simp add: wasWorkflowAbandoned_def)
    ultimately show ?thesis by (simp add: finalStatus_def)
  qed
  have hs: "handles ?st' = (if ?leak then logFile w # handles st else handles st)"
  proof (cases "fst (startSession env w ps st)")
    case (Inr r)
    then have "\<not> ?leak" using startSession_leak(1)[of st w env ps] by auto
    moreover have "handles ?st' = handles st" using started[OF Inr] by (elim conjE)
    ultimately show ?thesis by simp
  next
    case (Inl e)
    then have "startSession env w ps st = (Inl e, ?st1)"
      using startSession_split[of env w ps st] by simp
    then have "runWorkflowSession env w ps st = (Inl e, ?st1)"
      by (rule runWorkflowSession_not_started)
    then have "handles ?st' = handles ?st1" by simp
    also have "\<dots> = (if ?leak then logFile w # handles st else handles st)"
      using Inl by (simp only: startSession_handles) simp
    finally show ?thesis .
  qed
  have lk: "fst (runWorkflowSession env w ps st) = Inl IOError
          \<and> last (trace ?st') = HandleWrite (logFile w) ([LF, LF] @ replicate 80 (CHR ''='') @ [LF] @ ''RESUMING WORKFLOW AT '' @ now env @ [LF] @
                      replicate 80 (CHR ''='') @ [LF, LF])
          \<and> HandleClose (logFile w) \<notin> set (drop (length (trace st)) (trace ?st'))"
    if l: ?leak
  proof -
    note s = startSession_leak[OF l, of ps]
    from s(1) have "startSession env w ps st = (Inl IOError, ?st1)"
      using startSession_split[of env w ps st] by simp
    then have run: "runWorkflowSession env w ps st = (Inl IOError, ?st1)"
      by (rule runWorkflowSession_not_started)
    have "trace ?st1 = trace st @
        [Spawn ''copilot'' [''--resume'', ''--allow-all-tools'', ''--allow-all-paths''],
         OpenFile (logFile w) Append, HandleWrite (logFile w) (resumeMarker (now env))]"
      using l by (simp add: startSession_def bindIO_def perform_def returnIO_def Let_def resumeMarker_def)
    then have "HandleClose (logFile w) \<notin> set (drop (length (trace st)) (trace ?st1))"
      by simp
    with s(2) run show ?thesis by simp
  qed
  from started returned hs lk show ?thesis by blast
qed

text \<open>
  A resumed session of \<^verbatim>\<open>lint\<close> whose marker write is rejected throws and leaves the log
  handle open; a fresh session whose child exits with success returns true, with the
  status \<^verbatim>\<open>COMPLETED\<close> and no handle open.
\<close>

theorem runWorkflowSession_completion_witness:
  "wasWorkflowAbandoned abandonedWorld ''lint''
   \<and> fst (runWorkflowSession markerFailsEnv ''lint'' [''api'', ''web''] abandonedWorld) = Inl IOError
   \<and> handles abandonedWorld = []
   \<and> handles (snd (runWorkflowSession markerFailsEnv ''lint'' [''api'', ''web''] abandonedWorld))
       = [logFile ''lint'']
   \<and> fst (startSession exampleEnv ''lint'' [''api'', ''web''] emptyWorld) = Inr False
   \<and> exit_status exampleEnv = Some True
   \<and> fst (runWorkflowSession exampleEnv ''lint'' [''api'', ''web''] emptyWorld) = Inr True
   \<and> files (snd (runWorkflowSession exampleEnv ''lint'' [''api'', ''web''] emptyWorld))
        (statusFile ''lint'') = Some ''COMPLETED''
   \<and> handles (snd (runWorkflowSession exampleEnv ''lint'' [''api'', ''web''] emptyWorld)) = []"
proof -
  note a = abandonedWorld_abandoned
  have f: "\<not> fault markerFailsEnv h (Spawn c args)" "\<not> fault markerFailsEnv h (OpenFile p m)"
    "fault markerFailsEnv h (HandleWrite p b)" for h c args p m b
    by (simp_all add: markerFailsEnv_def markerFault_def)
  note t = runWorkflowSession_completion[of markerFailsEnv "''lint''" "[''api'', ''web'']" abandonedWorld]
  have h0: "handles abandonedWorld = []"
    by (simp add: abandonedWorld_def emptyWorld_def)
  from t[THEN conjunct2, THEN conjunct2, THEN conjunct2] a f
  have l1: "fst (runWorkflowSession markerFailsEnv ''lint'' [''api'', ''web''] abandonedWorld) = Inl IOError"
    by simp
  from t[THEN conjunct2, THEN conjunct2, THEN conjunct1] a f h0
  have l2: "handles (snd (runWorkflowSession markerFailsEnv ''lint'' [''api'', ''web''] abandonedWorld))
       = [logFile ''lint'']"
    by simp
  note u = runWorkflowSession_completion[of exampleEnv "''lint''" "[''api'', ''web'']" emptyWorld]
  note u1 = u[THEN conjunct1, rule_format, OF fresh_start]
  have e: "exit_status exampleEnv = Some True"
    by (simp add: exampleEnv_def)
  have n: "\<not> fault exampleEnv h op" for h op
    by (simp add: exampleEnv_def noFault_def)
  from u1[THEN conjunct1, rule_format, of True] e n
  have r: "fst (runWorkflowSession exampleEnv ''lint'' [''api'', ''web''] emptyWorld) = Inr True"
    by simp
  from u[THEN conjunct2, THEN conjunct1, rule_format, OF r]
  have s: "files (snd (runWorkflowSession exampleEnv ''lint'' [''api'', ''web''] emptyWorld))
        (statusFile ''lint'') = Some ''COMPLETED''"
    by simp
  from u1[THEN conjunct2, THEN conjunct2, THEN conjunct1]
  have h: "handles (snd (runWorkflowSession exampleEnv ''lint'' [''api'', ''web''] emptyWorld)) = []"
    by (simp add: emptyWorld_def)
  from a l1 h0 l2 fresh_start e r s h show ?thesis by (intro conjI)
qed

text \<open>
  Claim C6, as amended. Whatever the environment does, a session of workflow \<open>w\<close>
  leaves every file other than the status, log and prompt file of \<open>w\<close> as it was, among
  them the three files of every other workflow; a resumed session leaves the prompt file
  as it was, too; and nothing is written to the console.
\<close>

theorem runWorkflowSession_frame:
  "(\<forall>p. p \<notin> {statusFile w, logFile w, promptFile w} \<longrightarrow>
         files (snd (runWorkflowSession env w ps st)) p = files st p)
   \<and> (\<forall>v. v \<noteq> w \<longrightarrow>
         files (snd (runWorkflowSession env w ps st)) (statusFile v) = files st (statusFile v)
         \<and> files (snd (runWorkflowSession env w ps st)) (logFile v) = files st (logFile v)
         \<and> files (snd (runWorkflowSession env w ps st)) (promptFile v) = files st (promptFile v))
   \<and> (wasWorkflowAbandoned st w \<longrightarrow>
         files (snd (runWorkflowSession env w ps st)) (promptFile w) = files st (promptFile w))
   \<and> console (snd (runWorkflowSession env w ps st)) = console st"
proof -
  let ?st1 = "snd (startSession env w ps st)"
  let ?st' = "snd (runWorkflowSession env w ps st)"
  have run: "?st' = ?st1 \<or> ?st' = snd (superviseSession env w ?st1)"
  proof (cases "fst (startSession env w ps st)")
    case (Inl e)
    then have "startSession env w ps st = (Inl e, ?st1)"
      using startSession_split[of env w ps st] by simp
    then show ?thesis by (simp add: runWorkflowSession_not_started)
  next
    case (Inr r)
    then have "startSession env w ps st = (Inr r, ?st1)"
      using startSession_split[of env w ps st] by simp
    then show ?thesis by (simp add: runWorkflowSession_started)
  qed
  have frame: "files ?st' p = files st p" if "p \<notin> {statusFile w, logFile w, promptFile w}" for p
    using run that startSession_frame[of p w env ps st] superviseSession_frame[of p w env ?st1]
    by auto
  have other: "files ?st' (statusFile v) = files st (statusFile v)
         \<and> files ?st' (logFile v) = files st (logFile v)
         \<and> files ?st' (promptFile v) = files st (promptFile v)" if "v \<noteq> w" for v
  proof -
    have "statusFile v \<notin> {statusFile w, logFile w, promptFile w}"
      using that statusFile_inj statusFile_neq_logFile statusFile_neq_promptFile by auto
    moreover have "logFile v \<notin> {statusFile w, logFile w, promptFile w}"
      using that logFile_inj statusFile_neq_logFile[of w v] promptFile_neq_logFile[of w v] by auto
    moreover have "promptFile v \<notin> {statusFile w, logFile w, promptFile w}"
      using that promptFile_inj promptFile_neq_logFile statusFile_neq_promptFile[of w v] by auto
    ultimately show ?thesis using frame by blast
  qed
  have keep: "files ?st' (promptFile w) = files st (promptFile w)" if "wasWorkflowAbandoned st w"
  proof -
    have "promptFile w \<notin> {statusFile w, logFile w}"
      using promptFile_neq_logFile statusFile_neq_promptFile[of w w] by auto
    then have "files (snd (superviseSession env w ?st1)) (promptFile w) = files ?st1 (promptFile w)"
      by (rule superviseSession_frame)
    with run startSession_resume_keeps[OF that, of env ps] show ?thesis by auto
  qed
  have con: "console ?st' = console st"
    using run startSession_console[of env w ps st] superviseSession_console[of env w ?st1] by auto
  from frame other keep con show ?thesis by blast
qed

theorem runWorkflowSession_frame_witness:
  "progressFile ''lint'' \<notin> {statusFile ''lint'', logFile ''lint'', promptFile ''lint''}
   \<and> files (snd (runWorkflowSession exampleEnv ''lint'' [''api'', ''web''] emptyWorld)) (progressFile ''lint'')
       = files emptyWorld (progressFile ''lint'')
   \<and> ''type'' \<noteq> ''lint''
   \<and> files (snd (runWorkflowSession exampleEnv ''lint'' [''api'', ''web''] emptyWorld)) (statusFile ''type'')
       = files emptyWorld (statusFile ''type'')
   \<and> wasWorkflowAbandoned abandonedWorld ''lint''
   \<and> files (snd (runWorkflowSession exampleEnv ''lint'' [''api'', ''web''] abandonedWorld)) (promptFile ''lint'')
       = files abandonedWorld (promptFile ''lint'')"
proof -
  have p: "progressFile ''lint'' \<notin> {statusFile ''lint'', logFile ''lint'', promptFile ''lint''}"
    by (simp add: progressFile_def statusFile_def logFile_def promptFile_def PROGRESS_DIR_def
        LOG_DIR_def)
  have d: "''type'' \<noteq> ''lint''" by simp
  note a = abandonedWorld_abandoned
  note f0 = runWorkflowSession_frame[of "''lint''" exampleEnv "[''api'', ''web'']" emptyWorld,
      THEN conjunct1, rule_format, OF p]
  note f1 = runWorkflowSession_frame[of "''lint''" exampleEnv "[''api'', ''web'']" emptyWorld,
      THEN conjunct2, THEN conjunct1, rule_format, OF d, THEN conjunct1]
  note f2 = runWorkflowSession_frame[of "''lint''" exampleEnv "[''api'', ''web'']" abandonedWorld,
      THEN conjunct2, THEN conjunct2, THEN conjunct1, rule_format, OF a]
  show ?thesis
    by (intro conjI p f0 d f1 a f2)
qed

text \<open>
  A fresh session of \<^verbatim>\<open>lint\<close> creates the prompt file, which is neither the status file nor
  the log file.
\<close>

theorem runWorkflowSession_prompt_counterexample:
  "promptFile ''lint'' \<notin> {statusFile ''lint'', logFile ''lint''}
   \<and> files emptyWorld (promptFile ''lint'') = None
   \<and> files (snd (runWorkflowSession exampleEnv ''lint'' [''api'', ''web''] emptyWorld)) (promptFile ''lint'')
       = Some (buildWorkflowTodo ''lint'' [''api'', ''web''])"
proof -
  let ?st1 = "snd (startSession exampleEnv ''lint'' [''api'', ''web''] emptyWorld)"
  have n: "promptFile ''lint'' \<notin> {statusFile ''lint'', logFile ''lint''}"
    using promptFile_neq_logFile statusFile_neq_promptFile[of "''lint''" "''lint''"] by auto
  have start: "startSession exampleEnv ''lint'' [''api'', ''web''] emptyWorld = (Inr False, ?st1)"
    using fresh_start startSession_split[of exampleEnv "''lint''" "[''api'', ''web'']" emptyWorld]
    by simp
  have "\<not> wasWorkflowAbandoned emptyWorld ''lint''"
    by (simp add: wasWorkflowAbandoned_def emptyWorld_def)
  from startSession_fresh(5)[OF this start]
  have "files ?st1 (promptFile ''lint'') = Some (buildWorkflowTodo ''lint'' [''api'', ''web''])"
    using promptFile_neq_logFile by simp
  moreover have "files (snd (superviseSession exampleEnv ''lint'' ?st1)) (promptFile ''lint'')
      = files ?st1 (promptFile ''lint'')"
    using n by (rule superviseSession_frame)
  ultimately have "files (snd (runWorkflowSession exampleEnv ''lint'' [''api'', ''web''] emptyWorld))
       (promptFile ''lint'') = Some (buildWorkflowTodo ''lint'' [''api'', ''web''])"
    using runWorkflowSession_started[OF start] by simp
  with n show ?thesis by (simp add: emptyWorld_def)
qed

section \<open>Properties of the session orchestrator\<close>

lemma session_files_other:
  "p \<notin> {statusFile w, logFile w, promptFile w} \<Longrightarrow>
     files (snd (runWorkflowSession env w ps st)) p = files st p"
  using runWorkflowSession_cases[of env w ps st] startSession_frame[of p w env ps st]
    superviseSession_frame[of p w env "snd (startSession env w ps st)"]
  by auto

lemma session_returns:
  "fst (runWorkflowSession env w ps st) = Inr b \<Longrightarrow>
     exit_status env = Some b \<and>
     files (snd (runWorkflowSession env w ps st)) (statusFile w) = Some (finalStatus b)"
  using runWorkflowSession_cases[of env w ps st]
    superviseSession_returns[of env w "snd (startSession env w ps st)" b]
  by auto

lemma startSession_no_settled:
  "\<exists>ops. trace (snd (startSession env w ps st)) = trace st @ ops \<and> filter isSettled ops = []"
  by (auto simp: startSession_def bindIO_def perform_def returnIO_def Let_def isSettled_def
      split: if_splits option.splits)

lemma superviseOp_not_settled: "superviseOp env w op \<Longrightarrow> \<not> isSettled op"
  by (auto simp: superviseOp_def chunkWrite_def isSettled_def split: io_op.splits)

lemma session_trace:
  "\<exists>ops. trace (snd (runWorkflowSession env w ps st)) = trace st @ ops \<and> filter isSettled ops = []"
proof -
  let ?st1 = "snd (startSession env w ps st)"
  obtain ops1 where o1: "trace ?st1 = trace st @ ops1" "filter isSettled ops1 = []"
    using startSession_no_settled by blast
  from runWorkflowSession_cases[of env w ps st] show ?thesis
  proof
    assume "snd (runWorkflowSession env w ps st) = ?st1
      \<and> (\<exists>e. fst (runWorkflowSession env w ps st) = Inl e)"
    with o1 show ?thesis by auto
  next
    assume r: "runWorkflowSession env w ps st = superviseSession env w ?st1"
    from superviseSession_trace[of env w ?st1] obtain ops
      where o: "trace (snd (superviseSession env w ?st1)) = trace ?st1 @ ops @ [HandleClose (logFile w)]"
        "list_all (superviseOp env w) ops" by blast
    from o(2) have "filter isSettled ops = []"
      by (auto simp: filter_empty_conv list_all_iff superviseOp_not_settled)
    with o(1) o1 r show ?thesis
      by (intro exI[of _ "ops1 @ ops @ [HandleClose (logFile w)]"]) (simp add: isSettled_def)
  qed
qed

lemma statusFile_other:
  "v \<noteq> w \<Longrightarrow> statusFile w \<notin> {statusFile v, logFile v, promptFile v}"
  using statusFile_inj[of w v] statusFile_neq_logFile[of w v] statusFile_neq_promptFile[of w v]
  by auto

lemma settle_simps:
  "files (settle w outcome st) = files st"
  "trace (settle w outcome st) = trace st @ [Settled w outcome]"
  "handles (settle w outcome st) = handles st"
  "console (settle w outcome st) = console st"
  by (simp_all add: settle_def)

lemma promiseAll_step_rejected:
  "fst (runWorkflowSession (session_env renv w) w ps st) = Inl e \<Longrightarrow>
     promiseAll renv ps (w # ws) st =
       (Inl e, settle w (Inl e) (snd (runWorkflowSession (session_env renv w) w ps st)))"
  by (cases "runWorkflowSession (session_env renv w) w ps st") simp

lemma promiseAll_step_resolved:
  "fst (runWorkflowSession (session_env renv w) w ps st) = Inr ok \<Longrightarrow>
     promiseAll renv ps (w # ws) st =
       promiseAll renv ps ws
         (settle w (Inr ok) (snd (runWorkflowSession (session_env renv w) w ps st)))"
  by (cases "runWorkflowSession (session_env renv w) w ps st") simp

lemma promiseAll_files_other:
  "(\<And>w. w \<in> set ws \<Longrightarrow> p \<notin> {statusFile w, logFile w, promptFile w}) \<Longrightarrow>
     files (snd (promiseAll renv ps ws st)) p = files st p"
proof (induction ws arbitrary: st)
  case Nil
  then show ?case by simp
next
  case (Cons w ws)
  let ?r = "runWorkflowSession (session_env renv w) w ps st"
  have here: "files (snd ?r) p = files st p"
    using Cons.prems[of w] by (simp add: session_files_other)
  show ?case
  proof (cases "fst ?r")
    case (Inl e)
    then have "promiseAll renv ps (w # ws) st = (Inl e, settle w (Inl e) (snd ?r))"
      by (rule promiseAll_step_rejected)
    with here show ?thesis by (simp add: settle_simps)
  next
    case (Inr ok)
    then have "promiseAll renv ps (w # ws) st = promiseAll renv ps ws (settle w (Inr ok) (snd ?r))"
      by (rule promiseAll_step_resolved)
    moreover have "files (snd (promiseAll renv ps ws (settle w (Inr ok) (snd ?r)))) p
        = files (settle w (Inr ok) (snd ?r)) p"
      using Cons.prems by (intro Cons.IH) simp
    ultimately show ?thesis using here by (simp add: settle_simps)
  qed
qed

lemma promiseAll_resolved:
  "distinct ws \<Longrightarrow> fst (promiseAll renv ps ws st) = Inr () \<Longrightarrow>
     \<exists>ops. trace (snd (promiseAll renv ps ws st)) = trace st @ ops \<and>
           length (filter isSettled ops) = length ws \<and>
           (\<forall>w\<in>set ws. \<exists>b. Settled w (Inr b) \<in> set ops \<and>
              exit_status (session_env renv w) = Some b \<and>
              files (snd (promiseAll renv ps ws st)) (statusFile w) = Some (finalStatus b))"
proof (induction ws arbitrary: st)
  case Nil
  then show ?case by simp
next
  case (Cons w ws)
  let ?r = "runWorkflowSession (session_env renv w) w ps st"
  obtain ok where ok: "fst ?r = Inr ok"
  proof (cases "fst ?r")
    case (Inl e)
    then have "promiseAll renv ps (w # ws) st = (Inl e, settle w (Inl e) (snd ?r))"
      by (rule promiseAll_step_rejected)
    with Cons.prems(2) show ?thesis by simp
  next
    case (Inr ok)
    then show ?thesis by (rule that)
  qed
  let ?st1 = "settle w (Inr ok) (snd ?r)"
  let ?st' = "snd (promiseAll renv ps ws ?st1)"
  from ok have step: "promiseAll renv ps (w # ws) st = promiseAll renv ps ws ?st1"
    by (rule promiseAll_step_resolved)
  from Cons.prems have d: "distinct ws" "w \<notin> set ws" by auto
  from Cons.IH[OF d(1), of ?st1] Cons.prems(2) step obtain ops
    where ops: "trace ?st' = trace ?st1 @ ops" "length (filter isSettled ops) = length ws"
      "\<forall>v\<in>set ws. \<exists>b. Settled v (Inr b) \<in> set ops \<and>
          exit_status (session_env renv v) = Some b \<and> files ?st' (statusFile v) = Some (finalStatus b)"
    by auto
  obtain sops where sops: "trace (snd ?r) = trace st @ sops" "filter isSettled sops = []"
    using session_trace by blast
  let ?all = "sops @ [Settled w (Inr ok)] @ ops"
  have t: "trace ?st' = trace st @ ?all"
    using ops(1) sops(1) by (simp add: settle_simps)
  have n: "length (filter isSettled ?all) = length (w # ws)"
    using ops(2) sops(2) by (simp add: isSettled_def)
  have "files ?st' (statusFile w) = files ?st1 (statusFile w)"
    using d(2) by (intro promiseAll_files_other statusFile_other) auto
  then have here: "files ?st' (statusFile w) = Some (finalStatus ok)"
    using session_returns[OF ok] by (simp add: settle_simps)
  have ex: "exit_status (session_env renv w) = Some ok"
    using session_returns[OF ok] by simp
  have "\<forall>v\<in>set (w # ws). \<exists>b. Settled v (Inr b) \<in> set ?all \<and>
          exit_status (session_env renv v) = Some b \<and>
          files ?st' (statusFile v) = Some (finalStatus b)"
  proof
    fix v assume "v \<in> set (w # ws)"
    then consider "v = w" | "v \<in> set ws" by auto
    then show "\<exists>b. Settled v (Inr b) \<in> set ?all \<and>
        exit_status (session_env renv v) = Some b \<and>
        files ?st' (statusFile v) = Some (finalStatus b)"
    proof cases
      case 1
      with here ex show ?thesis by (intro exI[of _ ok]) simp
    next
      case 2
      with ops(3) obtain b where "Settled v (Inr b) \<in> set ops"
        "exit_status (session_env renv v) = Some b"
        "files ?st' (statusFile v) = Some (finalStatus b)" by blast
      then show ?thesis by (intro exI[of _ b]) simp
    qed
  qed
  with t n step show ?case by (intro exI[of _ ?all]) simp
qed


lemma settleOrder_set: "set (settleOrder renv workflows) = set (orderedWorkflowsOf workflows)"
  by (simp add: settleOrder_def)

lemma settleOrder_distinct: "distinct (settleOrder renv workflows)"
  by (simp add: settleOrder_def orderedWorkflowsOf_def WORKFLOW_ORDER_distinct)

lemma settleOrder_length: "length (settleOrder renv workflows) = length (orderedWorkflowsOf workflows)"
  by (simp add: settleOrder_def)

lemma runAllWorkflows_cases:
  obtains
    (announce_rejected)
      "run_fault renv (trace st) (resumeStatusOp workflows st)"
      "runAllWorkflows renv workflows ps st = (Inl IOError, attempted (resumeStatusOp workflows st) st)"
  | (session_threw) e where
      "fst (promiseAll renv ps (settleOrder renv workflows) (announce workflows st)) = Inl e"
      "runAllWorkflows renv workflows ps st =
         promiseAll renv ps (settleOrder renv workflows) (announce workflows st)"
  | (selection_rejected)
      "fst (promiseAll renv ps (settleOrder renv workflows) (announce workflows st)) = Inr ()"
      "run_fault renv
         (trace (snd (promiseAll renv ps (settleOrder renv workflows) (announce workflows st))))
         (selectionOp workflows)"
      "runAllWorkflows renv workflows ps st =
         (Inl IOError,
          attempted (selectionOp workflows)
            (snd (promiseAll renv ps (settleOrder renv workflows) (announce workflows st))))"
  | (resolved)
      "fst (promiseAll renv ps (settleOrder renv workflows) (announce workflows st)) = Inr ()"
      "\<not> run_fault renv
         (trace (snd (promiseAll renv ps (settleOrder renv workflows) (announce workflows st))))
         (selectionOp workflows)"
      "runAllWorkflows renv workflows ps st =
         (Inr (),
          effect (selectionOp workflows)
            (attempted (selectionOp workflows)
               (snd (promiseAll renv ps (settleOrder renv workflows) (announce workflows st)))))"
proof -
  let ?rop = "resumeStatusOp workflows st"
  let ?ws = "settleOrder renv workflows"
  let ?ab = "0 < length (filter (wasWorkflowAbandoned st) (orderedWorkflowsOf workflows))"
  let ?st1 = "announce workflows st"
  let ?st2 = "snd (promiseAll renv ps ?ws ?st1)"
  have u: "runAllWorkflows renv workflows ps st =
      bindIO (if ?ab then perform (run_fault renv) ?rop else returnIO ())
        (\<lambda>_. bindIO (promiseAll renv ps ?ws) (\<lambda>_. perform (run_fault renv) (selectionOp workflows))) st"
    by (simp add: runAllWorkflows_def Let_def resumeStatusOp_def settleOrder_def selectionOp_def
        orderedWorkflowsOf_def)
  have rest: thesis
    if r: "runAllWorkflows renv workflows ps st =
        bindIO (promiseAll renv ps ?ws) (\<lambda>_. perform (run_fault renv) (selectionOp workflows)) ?st1"
  proof (cases "fst (promiseAll renv ps ?ws ?st1)")
    case (Inl e)
    then have "runAllWorkflows renv workflows ps st = promiseAll renv ps ?ws ?st1"
      using r by (cases "promiseAll renv ps ?ws ?st1") (simp add: bindIO_def)
    with Inl show ?thesis by (rule session_threw)
  next
    case (Inr u)
    then have i: "fst (promiseAll renv ps ?ws ?st1) = Inr ()" by simp
    have r2: "runAllWorkflows renv workflows ps st = perform (run_fault renv) (selectionOp workflows) ?st2"
      using r i by (cases "promiseAll renv ps ?ws ?st1") (simp add: bindIO_def)
    show ?thesis
    proof (cases "run_fault renv (trace ?st2) (selectionOp workflows)")
      case True
      with r2 have "runAllWorkflows renv workflows ps st =
         (Inl IOError, attempted (selectionOp workflows) ?st2)"
        by (simp add: perform_def Let_def attempted_def)
      with i True show ?thesis by (rule selection_rejected)
    next
      case False
      with r2 have "runAllWorkflows renv workflows ps st =
         (Inr (), effect (selectionOp workflows) (attempted (selectionOp workflows) ?st2))"
        by (simp add: perform_def Let_def attempted_def)
      with i False show ?thesis by (rule resolved)
    qed
  qed
  show thesis
  proof (cases ?ab)
    case False
    then have "runAllWorkflows renv workflows ps st =
        bindIO (promiseAll renv ps ?ws) (\<lambda>_. perform (run_fault renv) (selectionOp workflows)) ?st1"
      using u by (simp add: bindIO_def returnIO_def announce_def)
    then show ?thesis by (rule rest)
  next
    case True
    show ?thesis
    proof (cases "run_fault renv (trace st) ?rop")
      case f: True
      with True u have "runAllWorkflows renv workflows ps st = (Inl IOError, attempted ?rop st)"
        by (simp add: bindIO_def perform_def Let_def attempted_def)
      with f show ?thesis by (rule announce_rejected)
    next
      case f: False
      with True u have "runAllWorkflows renv workflows ps st =
        bindIO (promiseAll renv ps ?ws) (\<lambda>_. perform (run_fault renv) (selectionOp workflows)) ?st1"
        by (simp add: bindIO_def perform_def Let_def attempted_def announce_def)
      then show ?thesis by (rule rest)
    qed
  qed
qed

lemma announce_trace:
  "\<exists>ops. trace (announce workflows st) = trace st @ ops \<and> filter isSettled ops = []"
  by (simp add: announce_def attempted_def resumeStatusOp_def isSettled_def)

lemma WORKFLOWS_FILE_neq_statusFile: "WORKFLOWS_FILE \<noteq> statusFile w"
proof
  assume "WORKFLOWS_FILE = statusFile w"
  then have "last WORKFLOWS_FILE = last (statusFile w)" by simp
  then show False by (simp add: WORKFLOWS_FILE_def statusFile_def)
qed

lemma WORKFLOWS_FILE_neq_logFile: "WORKFLOWS_FILE \<noteq> logFile w"
proof
  assume "WORKFLOWS_FILE = logFile w"
  then have "last WORKFLOWS_FILE = last (logFile w)" by simp
  then show False by (simp add: WORKFLOWS_FILE_def logFile_def)
qed

lemma runAllWorkflows_resolved:
  assumes "fst (runAllWorkflows renv workflows ps st) = Inr ()"
  shows "\<exists>pre. trace (snd (runAllWorkflows renv workflows ps st)) =
                 trace st @ pre @ [selectionOp workflows] \<and>
               length (filter isSettled pre) = length (orderedWorkflowsOf workflows) \<and>
               (\<forall>w\<in>set (orderedWorkflowsOf workflows). \<exists>b.
                  Settled w (Inr b) \<in> set pre \<and>
                  exit_status (session_env renv w) = Some b \<and>
                  files (snd (runAllWorkflows renv workflows ps st)) (statusFile w) =
                    Some (finalStatus b))"
    and "files (snd (runAllWorkflows renv workflows ps st)) WORKFLOWS_FILE =
           Some (joinWith [LF] workflows)"
proof -
  let ?ws = "settleOrder renv workflows"
  let ?st1 = "announce workflows st"
  let ?st2 = "snd (promiseAll renv ps ?ws ?st1)"
  let ?st' = "snd (runAllWorkflows renv workflows ps st)"
  have r: "fst (promiseAll renv ps ?ws ?st1) = Inr ()
     \<and> ?st' = effect (selectionOp workflows) (attempted (selectionOp workflows) ?st2)"
    using assms by (cases rule: runAllWorkflows_cases[where renv=renv and st=st and workflows=workflows and ps=ps]) simp_all
  then have tr: "trace ?st' = trace ?st2 @ [selectionOp workflows]"
    and fl: "files ?st' = (files ?st2)(WORKFLOWS_FILE \<mapsto> joinWith [LF] workflows)"
    by (simp_all add: selectionOp_def attempted_def)
  from fl show "files ?st' WORKFLOWS_FILE = Some (joinWith [LF] workflows)" by simp
  obtain ops1 where o1: "trace ?st1 = trace st @ ops1" "filter isSettled ops1 = []"
    using announce_trace by blast
  from promiseAll_resolved[OF settleOrder_distinct conjunct1[OF r]] obtain ops
    where o: "trace ?st2 = trace ?st1 @ ops" "length (filter isSettled ops) = length ?ws"
      "\<forall>w\<in>set ?ws. \<exists>b. Settled w (Inr b) \<in> set ops \<and>
           exit_status (session_env renv w) = Some b \<and>
           files ?st2 (statusFile w) = Some (finalStatus b)"
    by blast
  have "\<forall>w\<in>set (orderedWorkflowsOf workflows). \<exists>b.
          Settled w (Inr b) \<in> set (ops1 @ ops) \<and> exit_status (session_env renv w) = Some b \<and>
          files ?st' (statusFile w) = Some (finalStatus b)"
  proof
    fix w assume "w \<in> set (orderedWorkflowsOf workflows)"
    then have "w \<in> set ?ws" by (simp add: settleOrder_set)
    with o(3) obtain b where "Settled w (Inr b) \<in> set ops"
      "exit_status (session_env renv w) = Some b"
      "files ?st2 (statusFile w) = Some (finalStatus b)" by blast
    then show "\<exists>b. Settled w (Inr b) \<in> set (ops1 @ ops) \<and>
        exit_status (session_env renv w) = Some b \<and>
        files ?st' (statusFile w) = Some (finalStatus b)"
      using fl WORKFLOWS_FILE_neq_statusFile[of w] by (intro exI[of _ b]) simp
  qed
  with tr o(1,2) o1 show "\<exists>pre. trace ?st' = trace st @ pre @ [selectionOp workflows] \<and>
               length (filter isSettled pre) = length (orderedWorkflowsOf workflows) \<and>
               (\<forall>w\<in>set (orderedWorkflowsOf workflows). \<exists>b.
                  Settled w (Inr b) \<in> set pre \<and>
                  exit_status (session_env renv w) = Some b \<and>
                  files ?st' (statusFile w) = Some (finalStatus b))"
    by (intro exI[of _ "ops1 @ ops"]) (simp add: settleOrder_length)
qed


lemma startSession_accepted:
  "(\<And>h op. \<not> fault env h op) \<Longrightarrow> fst (startSession env w ps st) = Inr (wasWorkflowAbandoned st w)"
  by (simp add: startSession_def bindIO_def perform_def returnIO_def Let_def)

lemma session_accepted:
  assumes "\<And>h op. \<not> fault env h op" and "exit_status env = Some b"
  shows "fst (runWorkflowSession env w ps st) = Inr b"
proof -
  have "startSession env w ps st = (Inr (wasWorkflowAbandoned st w), snd (startSession env w ps st))"
    using startSession_accepted[of env w ps st] assms(1) startSession_split[of env w ps st] by simp
  then have "runWorkflowSession env w ps st = superviseSession env w (snd (startSession env w ps st))"
    by (rule runWorkflowSession_started)
  then show ?thesis using superviseSession_exit[OF assms(2)] assms(1) by simp
qed

lemma promiseAll_accepted:
  "(\<And>w h op. \<not> fault (session_env renv w) h op) \<Longrightarrow>
   (\<And>w. \<exists>b. exit_status (session_env renv w) = Some b) \<Longrightarrow>
     fst (promiseAll renv ps ws st) = Inr ()"
proof (induction ws arbitrary: st)
  case Nil
  then show ?case by simp
next
  case (Cons w ws)
  obtain b where "exit_status (session_env renv w) = Some b" using Cons.prems(2) by blast
  then have "fst (runWorkflowSession (session_env renv w) w ps st) = Inr b"
    using Cons.prems(1) by (intro session_accepted) auto
  then have "promiseAll renv ps (w # ws) st =
       promiseAll renv ps ws
         (settle w (Inr b) (snd (runWorkflowSession (session_env renv w) w ps st)))"
    by (rule promiseAll_step_resolved)
  then show ?case using Cons.IH[OF Cons.prems] by simp
qed

lemma runAllWorkflows_accepted:
  assumes "\<And>w h op. \<not> fault (session_env renv w) h op"
    and "\<And>w. \<exists>b. exit_status (session_env renv w) = Some b"
    and "\<And>h op. \<not> run_fault renv h op"
  shows "fst (runAllWorkflows renv workflows ps st) = Inr ()"
proof (cases rule: runAllWorkflows_cases[where renv=renv and st=st and workflows=workflows and ps=ps])
  case announce_rejected
  with assms(3) show ?thesis by simp
next
  case (session_threw e)
  with promiseAll_accepted[of renv ps "settleOrder renv workflows" "announce workflows st"] assms(1,2)
  show ?thesis by simp
next
  case selection_rejected
  with assms(3) show ?thesis by simp
next
  case resolved
  then show ?thesis by simp
qed

lemma typeFailsRun_accepted:
  "fst (runAllWorkflows typeFailsRun workflows ps st) = Inr ()"
proof (rule runAllWorkflows_accepted)
  show "\<not> fault (session_env typeFailsRun w) h op" for w h op
    by (simp add: typeFailsRun_def typeFailsEnv_def exampleEnv_def noFault_def)
  show "\<exists>b. exit_status (session_env typeFailsRun w) = Some b" for w
    by (cases "w = ''type''") (auto simp: typeFailsRun_def typeFailsEnv_def exampleEnv_def)
  show "\<not> run_fault typeFailsRun h op" for h op
    by (simp add: typeFailsRun_def noFault_def)
qed









text \<open>
  Claim C10. Whenever \<^verbatim>\<open>runAllWorkflows\<close> returns, its last operation, after every ordered
  workflow's session has settled, is the write of the workflows it was called with,
  joined by newlines, to \<^verbatim>\<open>selected-workflows.txt\<close> in the state directory, which holds
  that text afterwards; the file is no workflow's log or status file.
\<close>

theorem runAllWorkflows_selection_file:
  assumes "fst (runAllWorkflows renv workflows ps st) = Inr ()"
  shows "files (snd (runAllWorkflows renv workflows ps st)) WORKFLOWS_FILE
           = Some (joinWith [LF] workflows)
       \<and> (\<exists>pre. trace (snd (runAllWorkflows renv workflows ps st)) =
                   trace st @ pre @ [WriteTextFile WORKFLOWS_FILE (joinWith [LF] workflows)] \<and>
                 length (filter isSettled pre) = length (orderedWorkflowsOf workflows))
       \<and> WORKFLOWS_FILE \<noteq> logFile w \<and> WORKFLOWS_FILE \<noteq> statusFile w
       \<and> WORKFLOWS_FILE = ''tools/gopher/.copilot-fix-state/selected-workflows.txt''"
proof -
  from runAllWorkflows_resolved(1)[OF assms] obtain pre
    where "trace (snd (runAllWorkflows renv workflows ps st)) =
             trace st @ pre @ [selectionOp workflows]"
      "length (filter isSettled pre) = length (orderedWorkflowsOf workflows)"
    by (elim exE conjE)
  then have "\<exists>pre. trace (snd (runAllWorkflows renv workflows ps st)) =
                   trace st @ pre @ [WriteTextFile WORKFLOWS_FILE (joinWith [LF] workflows)] \<and>
                 length (filter isSettled pre) = length (orderedWorkflowsOf workflows)"
    by (intro exI[of _ pre]) (simp add: selectionOp_def)
  moreover have "WORKFLOWS_FILE = ''tools/gopher/.copilot-fix-state/selected-workflows.txt''"
    by (simp add: WORKFLOWS_FILE_def STATE_DIR_def)
  ultimately show ?thesis
    using runAllWorkflows_resolved(2)[OF assms] WORKFLOWS_FILE_neq_logFile[of w]
      WORKFLOWS_FILE_neq_statusFile[of w]
    by (intro conjI)
qed

theorem runAllWorkflows_selection_file_witness:
  "fst (runAllWorkflows typeFailsRun [''lint'', ''docs'', ''type'', ''lint''] [''api''] emptyWorld) = Inr ()
   \<and> files (snd (runAllWorkflows typeFailsRun [''lint'', ''docs'', ''type'', ''lint''] [''api''] emptyWorld))
        WORKFLOWS_FILE
       = Some (''lint'' @ [LF] @ ''docs'' @ [LF] @ ''type'' @ [LF] @ ''lint'')"
proof -
  note r = typeFailsRun_accepted[of "[''lint'', ''docs'', ''type'', ''lint'']" "[''api'']" emptyWorld]
  have j: "joinWith [LF] [''lint'', ''docs'', ''type'', ''lint'']
      = ''lint'' @ [LF] @ ''docs'' @ [LF] @ ''type'' @ [LF] @ ''lint''"
    by (simp add: joinWith_def)
  from runAllWorkflows_selection_file[OF r, THEN conjunct1] j
  have "files (snd (runAllWorkflows typeFailsRun [''lint'', ''docs'', ''type'', ''lint''] [''api''] emptyWorld))
        WORKFLOWS_FILE
       = Some (''lint'' @ [LF] @ ''docs'' @ [LF] @ ''type'' @ [LF] @ ''lint'')"
    by simp
  with r show ?thesis by (intro conjI)
qed

end
